theory Spec2Isabelle
  imports Complex_Main
begin

section \<open>JavaScript numbers (IEEE 754 binary64)\<close>

text \<open>
  A number is a finite double, an infinity or NaN. A finite double is given by the real
  number it denotes, so negative zero is not told apart from zero (they compare equal, and
  no operation used here divides by one). Every arithmetic operation computes the exact real
  result and rounds it to the nearest double, ties to the even significand, and to an
  infinity beyond the largest finite double.
\<close>

datatype double = Fin real | PInf | NInf | NaN

text \<open>
  The position of the leading binary digit of a positive integer:
  \<open>2 ^ log2i n \<le> n < 2 ^ (log2i n + 1)\<close>.
\<close>

function log2i :: "int \<Rightarrow> int" where
  "log2i n = (if n < 2 then 0 else log2i (n div 2) + 1)"
  by pat_completeness auto
termination
  by (relation "measure nat") auto

declare log2i.simps [simp del]

text \<open>The binary exponent \<open>e\<close> of a non-zero real: \<open>2 ^ e \<le> |x| < 2 ^ (e + 1)\<close>.\<close>

definition exponent :: "real \<Rightarrow> int" where
  "exponent x =
     (if 1 \<le> \<bar>x\<bar> then log2i \<lfloor>\<bar>x\<bar>\<rfloor>
      else - log2i (\<lceil>1 / \<bar>x\<bar>\<rceil> - 1) - 1)"

text \<open>
  The distance between neighbouring doubles around \<open>x\<close>: 52 binary digits below the leading
  one, and constant in the subnormal range below \<open>2 ^ (-1022)\<close>.
\<close>

definition ulp :: "real \<Rightarrow> real" where
  "ulp x = 2 powi (max (exponent x) (- 1022) - 52)"

definition round_half_even :: "real \<Rightarrow> int" where
  "round_half_even r =
     (let f = \<lfloor>r\<rfloor>; d = r - of_int f
      in if d < 1 / 2 then f else if 1 / 2 < d then f + 1 else if even f then f else f + 1)"

definition round_nearest :: "real \<Rightarrow> real" where
  "round_nearest x =
     (if x < 0 then - (of_int (round_half_even (- x / ulp x)) * ulp x)
      else of_int (round_half_even (x / ulp x)) * ulp x)"

definition max_double :: real where
  "max_double = (2 ^ 53 - 1) * 2 ^ 971"

definition rd :: "real \<Rightarrow> double" where
  "rd x =
     (let y = round_nearest x
      in if max_double < y then PInf else if y < - max_double then NInf else Fin y)"

text \<open>The order of numbers; NaN compares with nothing.\<close>

fun dle :: "double \<Rightarrow> double \<Rightarrow> bool" where
  "dle NaN b = False"
| "dle a NaN = False"
| "dle NInf b = True"
| "dle a PInf = True"
| "dle (Fin x) (Fin y) = (x \<le> y)"
| "dle PInf b = False"
| "dle a NInf = False"

subsection \<open>The operations that the code uses\<close>

text \<open>\<open>a * b\<close>.\<close>

fun Number_multiply :: "double \<Rightarrow> double \<Rightarrow> double" where
  "Number_multiply NaN b = NaN"
| "Number_multiply a NaN = NaN"
| "Number_multiply (Fin x) (Fin y) = rd (x * y)"
| "Number_multiply (Fin x) PInf = (if x = 0 then NaN else if 0 < x then PInf else NInf)"
| "Number_multiply (Fin x) NInf = (if x = 0 then NaN else if 0 < x then NInf else PInf)"
| "Number_multiply PInf (Fin y) = (if y = 0 then NaN else if 0 < y then PInf else NInf)"
| "Number_multiply NInf (Fin y) = (if y = 0 then NaN else if 0 < y then NInf else PInf)"
| "Number_multiply PInf PInf = PInf"
| "Number_multiply PInf NInf = NInf"
| "Number_multiply NInf PInf = NInf"
| "Number_multiply NInf NInf = PInf"

text \<open>\<open>a + b\<close>.\<close>

fun Number_add :: "double \<Rightarrow> double \<Rightarrow> double" where
  "Number_add NaN b = NaN"
| "Number_add a NaN = NaN"
| "Number_add (Fin x) (Fin y) = rd (x + y)"
| "Number_add PInf NInf = NaN"
| "Number_add NInf PInf = NaN"
| "Number_add PInf b = PInf"
| "Number_add NInf b = NInf"
| "Number_add a PInf = PInf"
| "Number_add a NInf = NInf"

text \<open>
  \<open>2 ** k\<close> for an integer \<open>k\<close>: the power itself while it is a double, infinity from
  \<open>2 ** 1024\<close> on, and zero below the smallest subnormal.
\<close>

definition Number_exponentiate2 :: "int \<Rightarrow> double" where
  "Number_exponentiate2 k = rd (2 powi k)"

text \<open>\<open>Math.min(a, b)\<close> and \<open>Math.floor(a)\<close>.\<close>

fun Math_min :: "double \<Rightarrow> double \<Rightarrow> double" where
  "Math_min NaN b = NaN"
| "Math_min a NaN = NaN"
| "Math_min NInf b = NInf"
| "Math_min a NInf = NInf"
| "Math_min PInf b = b"
| "Math_min a PInf = a"
| "Math_min (Fin x) (Fin y) = Fin (min x y)"

fun Math_floor :: "double \<Rightarrow> double" where
  "Math_floor (Fin x) = Fin (of_int \<lfloor>x\<rfloor>)"
| "Math_floor a = a"

text \<open>A numeric literal of the source denotes the double nearest to its decimal value.\<close>

definition literal :: "real \<Rightarrow> double" where
  "literal x = rd x"

section \<open>HTTP retry and error classification (src/providers/http.ts)\<close>

text \<open>
  JavaScript numbers are modelled by \<open>int\<close> and \<open>nat\<close> where the code only handles integers
  (HTTP status codes, the attempt counter), by \<open>double\<close> where it computes with them (the
  delays in milliseconds), and by \<open>real\<close> for \<open>maxRetries\<close>, which is only compared with the
  attempt counter.
\<close>

subsection \<open>Decimal rendering of integers inside template strings\<close>

fun show_nat :: "nat \<Rightarrow> string" where
  "show_nat n =
     (if n < 10 then [char_of (48 + n)]
      else show_nat (n div 10) @ [char_of (48 + n mod 10)])"

declare show_nat.simps [simp del]

definition show_int :: "int \<Rightarrow> string" where
  "show_int i = (if i < 0 then CHR ''-'' # show_nat (nat (- i)) else show_nat (nat i))"

subsection \<open>ProviderError\<close>

datatype ProviderErrorCode =
  auth | rate_limit | timeout | network | server | bad_request | unknown

text \<open>
  The class \<open>ProviderError\<close>. The constructor defaults \<open>retryable\<close> to false when the
  option is absent; every construction site in this file passes it explicitly. The \<open>cause\<close>
  is carried for diagnostics only and is not part of the record.
\<close>

record ProviderError =
  pe_provider :: string
  pe_code :: ProviderErrorCode
  pe_status :: "int option"
  pe_retryable :: bool
  pe_message :: string

text \<open>
  A thrown JavaScript value, as far as \<open>classifyProviderError\<close> distinguishes it:
  an existing \<open>ProviderError\<close>, a \<open>DOMException\<close> named \<open>AbortError\<close>, a \<open>TypeError\<close>,
  any other \<open>Error\<close> (each with its message), or a value that is no \<open>Error\<close> (with its
  \<open>String(err)\<close> coercion).
\<close>

datatype thrown =
  ThrownProviderError ProviderError
| ThrownAbortError string
| ThrownTypeError string
| ThrownError string
| ThrownValue string

subsection \<open>computeBackoffMs\<close>

text \<open>The attempt number is an integer, so \<open>attempt - 1\<close> is exact.\<close>

definition computeBackoffMs :: "int \<Rightarrow> double \<Rightarrow> double \<Rightarrow> double" where
  "computeBackoffMs attempt retryBaseDelayMs retryMaxDelayMs =
     (let exp = Math_min retryMaxDelayMs
                  (Number_multiply retryBaseDelayMs (Number_exponentiate2 (attempt - 1)));
          jitter = Math_floor (Number_multiply exp (literal 0.2))
      in Number_add exp jitter)"

subsection \<open>classifyHttpStatusError\<close>

definition classifyHttpStatusError :: "string \<Rightarrow> int \<Rightarrow> string option \<Rightarrow> ProviderError" where
  "classifyHttpStatusError provider status details =
     (let suffix = (case details of None \<Rightarrow> '''' | Some d \<Rightarrow> if d = '''' then '''' else '' '' @ d)
      in if status = 401 \<or> status = 403 then
           \<lparr> pe_provider = provider, pe_code = auth, pe_status = Some status,
             pe_retryable = False,
             pe_message = provider @ '' authentication failed ('' @ show_int status @ '').'' @ suffix \<rparr>
         else if status = 429 then
           \<lparr> pe_provider = provider, pe_code = rate_limit, pe_status = Some status,
             pe_retryable = True,
             pe_message = provider @ '' rate limited ('' @ show_int status @ '').'' @ suffix \<rparr>
         else if status \<ge> 500 then
           \<lparr> pe_provider = provider, pe_code = server, pe_status = Some status,
             pe_retryable = True,
             pe_message = provider @ '' server error ('' @ show_int status @ '').'' @ suffix \<rparr>
         else if status \<ge> 400 then
           \<lparr> pe_provider = provider, pe_code = bad_request, pe_status = Some status,
             pe_retryable = False,
             pe_message = provider @ '' request failed ('' @ show_int status @ '').'' @ suffix \<rparr>
         else
           \<lparr> pe_provider = provider, pe_code = unknown, pe_status = Some status,
             pe_retryable = False,
             pe_message = provider @ '' request failed ('' @ show_int status @ '').'' @ suffix \<rparr>)"

subsection \<open>classifyProviderError\<close>

fun classifyProviderError :: "string \<Rightarrow> thrown \<Rightarrow> ProviderError" where
  "classifyProviderError provider (ThrownProviderError e) = e"
| "classifyProviderError provider (ThrownAbortError m) =
     \<lparr> pe_provider = provider, pe_code = timeout, pe_status = None, pe_retryable = True,
       pe_message = provider @ '' request timed out.'' \<rparr>"
| "classifyProviderError provider (ThrownTypeError m) =
     \<lparr> pe_provider = provider, pe_code = network, pe_status = None, pe_retryable = True,
       pe_message = provider @ '' network error.'' \<rparr>"
| "classifyProviderError provider (ThrownError m) =
     \<lparr> pe_provider = provider, pe_code = unknown, pe_status = None, pe_retryable = False,
       pe_message = provider @ '' request failed: '' @ m \<rparr>"
| "classifyProviderError provider (ThrownValue s) =
     \<lparr> pe_provider = provider, pe_code = unknown, pe_status = None, pe_retryable = False,
       pe_message = provider @ '' request failed: '' @ s \<rparr>"

subsection \<open>withRetry\<close>

record RetryOptions =
  ro_provider :: string
  ro_maxRetries :: "real option"
  ro_retryBaseDelayMs :: "double option"
  ro_retryMaxDelayMs :: "double option"

text \<open>
  The operation is an effectful thunk: it reads and changes a world \<open>'w\<close> and either
  returns a value or throws. The result of a run records, besides the outcome and the final
  world, how many times the operation was invoked and the delays passed to \<open>sleep\<close>.
\<close>

record ('a, 'w) retry_run =
  rr_outcome :: "ProviderError + 'a"
  rr_world :: 'w
  rr_calls :: nat
  rr_sleeps :: "double list"

text \<open>The body of \<open>while (true)\<close>; \<open>attempt\<close> is the counter before \<open>attempt += 1\<close>.\<close>

function withRetry_loop ::
  "('w \<Rightarrow> (thrown + 'a) \<times> 'w) \<Rightarrow> string \<Rightarrow> real \<Rightarrow> double \<Rightarrow> double \<Rightarrow>
   nat \<Rightarrow> 'w \<Rightarrow> nat \<Rightarrow> double list \<Rightarrow> ('a, 'w) retry_run" where
  "withRetry_loop operation provider maxRetries retryBaseDelayMs retryMaxDelayMs
       attempt0 w calls sleeps =
     (let attempt = attempt0 + 1 in
      case operation w of
        (Inr v, w') \<Rightarrow>
          \<lparr> rr_outcome = Inr v, rr_world = w', rr_calls = calls + 1, rr_sleeps = sleeps \<rparr>
      | (Inl err, w') \<Rightarrow>
          (let providerError = classifyProviderError provider err in
           if \<not> pe_retryable providerError \<or> real attempt > maxRetries + 1 then
             \<lparr> rr_outcome = Inl providerError, rr_world = w', rr_calls = calls + 1,
               rr_sleeps = sleeps \<rparr>
           else
             withRetry_loop operation provider maxRetries retryBaseDelayMs retryMaxDelayMs
               attempt w' (calls + 1)
               (sleeps @ [computeBackoffMs (int attempt) retryBaseDelayMs retryMaxDelayMs])))"
  by pat_completeness auto
termination
  apply (relation "measure (\<lambda>(operation, provider, maxRetries, b, m, attempt0, w, calls, sleeps).
                   nat \<lfloor>maxRetries + 2 - real attempt0\<rfloor>)")
   apply simp
  apply (simp add: algebra_simps)
  apply linarith
  done

declare withRetry_loop.simps [simp del]

definition withRetry ::
  "('w \<Rightarrow> (thrown + 'a) \<times> 'w) \<Rightarrow> RetryOptions \<Rightarrow> 'w \<Rightarrow> ('a, 'w) retry_run" where
  "withRetry operation options w =
     (let maxRetries = (case ro_maxRetries options of None \<Rightarrow> 2 | Some n \<Rightarrow> n);
          retryBaseDelayMs =
            (case ro_retryBaseDelayMs options of None \<Rightarrow> literal 200 | Some n \<Rightarrow> n);
          retryMaxDelayMs =
            (case ro_retryMaxDelayMs options of None \<Rightarrow> literal 2000 | Some n \<Rightarrow> n)
      in withRetry_loop operation (ro_provider options) maxRetries retryBaseDelayMs
           retryMaxDelayMs 0 w 0 [])"

text \<open>An operation that always fails with HTTP 503, already classified by the fetch wrapper.\<close>

definition always503 :: "unit \<Rightarrow> (thrown + unit) \<times> unit" where
  "always503 w = (Inl (ThrownProviderError (classifyHttpStatusError ''OpenAI'' 503 None)), w)"

section \<open>JavaScript values and the message normalizer (src/providers/normalize.ts)\<close>

subsection \<open>Values of type unknown\<close>

text \<open>
  A value that reaches the normalizer was decoded from JSON or built by the agent loop, so it
  is \<open>undefined\<close>, \<open>null\<close>, a boolean, a number, a string, an array or a plain object. An
  object is the list of its properties in insertion order; the first binding of a key is the
  one a property read returns.
\<close>

datatype jsval =
  JUndefined
| JNull
| JBool bool
| JNumber real
| JString string
| JArray "jsval list"
| JObject "(string \<times> jsval) list"

text \<open>
  The built-in functions of the runtime that the code calls are parameters of the model:
  \<open>JSON.parse\<close> (\<open>None\<close> when it throws a SyntaxError), \<open>JSON.stringify\<close> (\<open>None\<close> when it
  throws), the coercion \<open>String(v)\<close> of a value that is not a string, and \<open>path.join\<close> of
  \<open>node:path\<close> on two segments.
\<close>

record builtins =
  JSON_parse :: "string \<Rightarrow> jsval option"
  JSON_stringify :: "jsval \<Rightarrow> string option"
  String_of :: "jsval \<Rightarrow> string"
  path_join :: "string \<Rightarrow> string \<Rightarrow> string"

fun typeof :: "jsval \<Rightarrow> string" where
  "typeof JUndefined = ''undefined''"
| "typeof JNull = ''object''"
| "typeof (JBool b) = ''boolean''"
| "typeof (JNumber x) = ''number''"
| "typeof (JString s) = ''string''"
| "typeof (JArray xs) = ''object''"
| "typeof (JObject kvs) = ''object''"

text \<open>Truthiness, as tested by \<open>if (v)\<close>, \<open>v && ...\<close>, \<open>v || ...\<close> and \<open>Boolean(v)\<close>.\<close>

fun truthy :: "jsval \<Rightarrow> bool" where
  "truthy JUndefined = False"
| "truthy JNull = False"
| "truthy (JBool b) = b"
| "truthy (JNumber x) = (x \<noteq> 0)"
| "truthy (JString s) = (s \<noteq> '''')"
| "truthy (JArray xs) = True"
| "truthy (JObject kvs) = True"

text \<open>\<open>a ?? b\<close>: the right operand replaces \<open>null\<close> and \<open>undefined\<close> only.\<close>

fun nullish_or :: "jsval \<Rightarrow> jsval \<Rightarrow> jsval" where
  "nullish_or JUndefined d = d"
| "nullish_or JNull d = d"
| "nullish_or v d = v"

text \<open>
  Reading the property \<open>k\<close> of an object; an absent property reads as \<open>undefined\<close>. None of
  the keys the code reads exists on an array or on a primitive value, so these read as
  \<open>undefined\<close> too. Reading a property of \<open>null\<close> or \<open>undefined\<close> without \<open>?.\<close> throws a
  TypeError, which is written out where the code does it.
\<close>

fun get_prop :: "jsval \<Rightarrow> string \<Rightarrow> jsval" where
  "get_prop (JObject kvs) k = (case map_of kvs k of Some v \<Rightarrow> v | None \<Rightarrow> JUndefined)"
| "get_prop v k = JUndefined"

text \<open>\<open>String(v)\<close>: the identity on strings, the built-in coercion otherwise.\<close>

fun String_coerce :: "builtins \<Rightarrow> jsval \<Rightarrow> string" where
  "String_coerce bi (JString s) = s"
| "String_coerce bi v = String_of bi v"

subsection \<open>safeParseArguments\<close>

definition safeParseArguments :: "builtins \<Rightarrow> string \<Rightarrow> jsval" where
  "safeParseArguments bi raw =
     (case JSON_parse bi raw of
        Some parsed \<Rightarrow>
          if truthy parsed \<and> typeof parsed = ''object'' then parsed else JObject []
      | None \<Rightarrow> JObject [])"

subsection \<open>extractText\<close>

text \<open>\<open>.filter((part) => Boolean(part))\<close> on a list of strings and nulls.\<close>

fun filter_Boolean :: "string option list \<Rightarrow> string list" where
  "filter_Boolean [] = []"
| "filter_Boolean (None # ps) = filter_Boolean ps"
| "filter_Boolean (Some s # ps) = (if s = '''' then filter_Boolean ps else s # filter_Boolean ps)"

fun extractText :: "builtins \<Rightarrow> jsval \<Rightarrow> string option" where
  "extractText bi (JString s) = Some s"
| "extractText bi (JNumber x) = Some (String_of bi (JNumber x))"
| "extractText bi (JBool b) = Some (String_of bi (JBool b))"
| "extractText bi (JArray content) =
     (let parts = filter_Boolean (map (extractText bi) content)
      in if length parts > 0 then Some (concat parts) else None)"
| "extractText bi (JObject kvs) =
     (case get_prop (JObject kvs) ''text'' of
        JString maybeText \<Rightarrow> Some maybeText
      | _ \<Rightarrow> (case get_prop (JObject kvs) ''content'' of
                JString maybeContent \<Rightarrow> Some maybeContent
              | _ \<Rightarrow> None))"
| "extractText bi JNull = None"
| "extractText bi JUndefined = None"

subsection \<open>normalizeContent\<close>

definition normalizeContent :: "builtins \<Rightarrow> jsval \<Rightarrow> string option" where
  "normalizeContent bi content =
     (case extractText bi content of
        Some extracted \<Rightarrow> Some extracted
      | None \<Rightarrow>
          if content = JNull \<or> content = JUndefined then None
          else (case JSON_stringify bi content of
                  Some s \<Rightarrow> Some s
                | None \<Rightarrow> Some (String_of bi content)))"

section \<open>The OpenAI-style stream parser (src/providers/adapters/openai.ts)\<close>

subsection \<open>Internal response shape (src/providers/llm.ts)\<close>

record ToolCall =
  tc_id :: string
  tc_name :: string
  tc_arguments :: jsval

text \<open>\<open>LLMResponse\<close>; the optional \<open>usage\<close> is never set by \<open>stream\<close> nor read by the agent loop.\<close>

record LLMResponse =
  lr_content :: "string option"
  lr_toolCalls :: "ToolCall list option"
  lr_finishReason :: string

subsection \<open>Decoded stream chunks\<close>

text \<open>
  The payload of a \<open>data:\<close> line is decoded with \<open>JSON.parse\<close> and read through the shape
  of an OpenAI stream chunk: \<open>choices[0].delta\<close> with its \<open>content\<close> and \<open>tool_calls\<close>, and
  \<open>choices[0].finish_reason\<close>; a tool-call delta has a numeric \<open>index\<close> and optionally an
  \<open>id\<close> and a \<open>function\<close> with optional \<open>name\<close> and \<open>arguments\<close> strings. An optional
  field is \<open>None\<close> when it is absent or \<open>null\<close>. The decoder is a parameter, \<open>None\<close> when
  \<open>JSON.parse\<close> throws.
\<close>

record FunctionDelta =
  fd_name :: "string option"
  fd_arguments :: "string option"

record ToolCallDelta =
  tcd_index :: int
  tcd_id :: "string option"
  tcd_function :: "FunctionDelta option"

record StreamDelta =
  d_content :: jsval
  d_tool_calls :: "ToolCallDelta list option"

record StreamChoice =
  ch_delta :: "StreamDelta option"
  ch_finish_reason :: "string option"

record StreamChunk =
  ck_choices :: "StreamChoice list option"

subsection \<open>The accumulator \<open>toolCallState\<close>\<close>

record ToolCallState =
  st_id :: string
  st_name :: string
  st_args :: string

text \<open>
  A JavaScript \<open>Map\<close> keeps its entries in insertion order; \<open>set\<close> on a key that is present
  replaces the value where it stands, \<open>set\<close> on a new key appends an entry.
\<close>

fun Map_set :: "('k \<times> 'v) list \<Rightarrow> 'k \<Rightarrow> 'v \<Rightarrow> ('k \<times> 'v) list" where
  "Map_set [] k v = [(k, v)]"
| "Map_set ((k', v') # m) k v = (if k' = k then (k, v) # m else (k', v') # Map_set m k v)"

definition Map_get :: "('k \<times> 'v) list \<Rightarrow> 'k \<Rightarrow> 'v option" where
  "Map_get m k = map_of m k"

definition Map_values :: "('k \<times> 'v) list \<Rightarrow> 'v list" where
  "Map_values m = map snd m"

text \<open>\<open>toolCallDelta.function?.name\<close> and \<open>toolCallDelta.function?.arguments\<close>.\<close>

definition delta_name :: "ToolCallDelta \<Rightarrow> string option" where
  "delta_name d = (case tcd_function d of None \<Rightarrow> None | Some f \<Rightarrow> fd_name f)"

definition delta_arguments :: "ToolCallDelta \<Rightarrow> string option" where
  "delta_arguments d = (case tcd_function d of None \<Rightarrow> None | Some f \<Rightarrow> fd_arguments f)"

text \<open>
  The body of \<open>for (const toolCallDelta of delta.tool_calls)\<close>. A string is truthy when it
  is not empty, so \<open>if (toolCallDelta.id)\<close> holds for an \<open>id\<close> that is present and not
  empty.
\<close>

definition applyToolCallDelta ::
  "(int \<times> ToolCallState) list \<Rightarrow> ToolCallDelta \<Rightarrow> (int \<times> ToolCallState) list" where
  "applyToolCallDelta toolCallState toolCallDelta =
     (let index = tcd_index toolCallDelta;
          existing =
            (case Map_get toolCallState index of
               Some e \<Rightarrow> e
             | None \<Rightarrow>
                 \<lparr> st_id = (case tcd_id toolCallDelta of
                              Some i \<Rightarrow> i
                            | None \<Rightarrow> ''tool_'' @ show_int index),
                   st_name = (case delta_name toolCallDelta of Some n \<Rightarrow> n | None \<Rightarrow> ''''),
                   st_args = '''' \<rparr>);
          existing1 =
            (case tcd_id toolCallDelta of
               Some i \<Rightarrow> if i \<noteq> '''' then existing\<lparr> st_id := i \<rparr> else existing
             | None \<Rightarrow> existing);
          existing2 =
            (case delta_name toolCallDelta of
               Some n \<Rightarrow> if n \<noteq> '''' then existing1\<lparr> st_name := n \<rparr> else existing1
             | None \<Rightarrow> existing1);
          existing3 =
            (case delta_arguments toolCallDelta of
               Some a \<Rightarrow>
                 if a \<noteq> '''' then existing2\<lparr> st_args := st_args existing2 @ a \<rparr> else existing2
             | None \<Rightarrow> existing2)
      in Map_set toolCallState index existing3)"

subsection \<open>Lines of the event stream\<close>

record stream_state =
  ss_buffer :: string
  ss_toolCallState :: "(int \<times> ToolCallState) list"
  ss_finishReason :: "string option"
  ss_yielded :: "LLMResponse list"

definition newline :: char where
  "newline = CHR 0x0A"

text \<open>
  \<open>String.prototype.trim\<close> on ASCII text: tab, line feed, vertical tab, form feed, carriage
  return and space are white space.
\<close>

definition is_space :: "char \<Rightarrow> bool" where
  "is_space c = (c \<in> {CHR 0x09, CHR 0x0A, CHR 0x0B, CHR 0x0C, CHR 0x0D, CHR 0x20})"

definition trim :: "string \<Rightarrow> string" where
  "trim s = rev (dropWhile is_space (rev (dropWhile is_space s)))"

definition empty_delta :: StreamDelta where
  "empty_delta = \<lparr> d_content = JUndefined, d_tool_calls = None \<rparr>"

text \<open>The part of the loop body after \<open>JSON.parse\<close> succeeded.\<close>

definition processEvent :: "builtins \<Rightarrow> stream_state \<Rightarrow> StreamChunk \<Rightarrow> stream_state" where
  "processEvent bi st parsed =
     (let choice0 = (case ck_choices parsed of Some (c # cs) \<Rightarrow> Some c | _ \<Rightarrow> None);
          delta = (case choice0 of
                     Some c \<Rightarrow> (case ch_delta c of Some d \<Rightarrow> d | None \<Rightarrow> empty_delta)
                   | None \<Rightarrow> empty_delta);
          finishReason = (case choice0 of
                            Some c \<Rightarrow> (case ch_finish_reason c of
                                         Some r \<Rightarrow> Some r
                                       | None \<Rightarrow> ss_finishReason st)
                          | None \<Rightarrow> ss_finishReason st);
          deltaText = extractText bi (d_content delta);
          yielded =
            (case deltaText of
               Some t \<Rightarrow>
                 if length t > 0 then
                   ss_yielded st @
                     [\<lparr> lr_content = Some t, lr_toolCalls = None,
                        lr_finishReason = (case finishReason of
                                             Some r \<Rightarrow> r
                                           | None \<Rightarrow> ''streaming'') \<rparr>]
                 else ss_yielded st
             | None \<Rightarrow> ss_yielded st);
          toolCallState =
            (case d_tool_calls delta of
               Some ds \<Rightarrow> foldl applyToolCallDelta (ss_toolCallState st) ds
             | None \<Rightarrow> ss_toolCallState st)
      in st\<lparr> ss_toolCallState := toolCallState, ss_finishReason := finishReason,
             ss_yielded := yielded \<rparr>)"

text \<open>One line taken off the buffer (without its line feed).\<close>

definition processLine ::
  "builtins \<Rightarrow> (string \<Rightarrow> StreamChunk option) \<Rightarrow> stream_state \<Rightarrow> string \<Rightarrow> stream_state" where
  "processLine bi parse_chunk st raw =
     (let line = trim raw in
      if take 5 line \<noteq> ''data:'' then st
      else
        let data = trim (drop 5 line) in
        if data = '''' \<or> data = ''[DONE]'' then
          st\<lparr> ss_finishReason :=
                Some (case ss_finishReason st of Some r \<Rightarrow> r | None \<Rightarrow> ''stop'') \<rparr>
        else
          (case parse_chunk data of
             None \<Rightarrow> st
           | Some parsed \<Rightarrow> processEvent bi st parsed))"

text \<open>
  \<open>while (lineEnd !== -1)\<close>: as long as the buffer holds a line feed, the text before the
  first one is processed as a line and removed from the buffer together with the line feed.
\<close>

function drain_lines ::
  "builtins \<Rightarrow> (string \<Rightarrow> StreamChunk option) \<Rightarrow> stream_state \<Rightarrow> stream_state" where
  "drain_lines bi parse_chunk st =
     (if newline \<in> set (ss_buffer st) then
        let raw = takeWhile (\<lambda>c. c \<noteq> newline) (ss_buffer st);
            rest = drop (length raw + 1) (ss_buffer st)
        in drain_lines bi parse_chunk (processLine bi parse_chunk (st\<lparr> ss_buffer := rest \<rparr>) raw)
      else st)"
  by pat_completeness auto

lemma processEvent_buffer [simp]: "ss_buffer (processEvent bi st parsed) = ss_buffer st"
  by (simp add: processEvent_def Let_def)

lemma processLine_buffer [simp]: "ss_buffer (processLine bi pc st raw) = ss_buffer st"
  by (simp add: processLine_def Let_def split: option.splits)

termination drain_lines
proof (relation "measure (\<lambda>(bi, pc, st). length (ss_buffer st))", goal_cases)
  case 1
  show ?case by simp
next
  case (2 bi pc st raw rest)
  from 2(1) have "0 < length (ss_buffer st)" by (rule length_pos_if_in_set)
  then show ?case using 2 by simp
qed

declare drain_lines.simps [simp del]

text \<open>
  The body of \<open>for await (const chunk of res.body)\<close>, on the text that the decoder returns
  for the chunk.
\<close>

definition feed_chunk ::
  "builtins \<Rightarrow> (string \<Rightarrow> StreamChunk option) \<Rightarrow> stream_state \<Rightarrow> string \<Rightarrow> stream_state" where
  "feed_chunk bi parse_chunk st chunk =
     drain_lines bi parse_chunk (st\<lparr> ss_buffer := ss_buffer st @ chunk \<rparr>)"

text \<open>The fragment yielded when the body has ended.\<close>

definition final_fragment :: "builtins \<Rightarrow> stream_state \<Rightarrow> LLMResponse" where
  "final_fragment bi st =
     (if length (ss_toolCallState st) > 0 then
        \<lparr> lr_content = None,
          lr_toolCalls =
            Some (map (\<lambda>call. \<lparr> tc_id = st_id call, tc_name = st_name call,
                                 tc_arguments = safeParseArguments bi (st_args call) \<rparr>)
                    (Map_values (ss_toolCallState st))),
          lr_finishReason = (case ss_finishReason st of Some r \<Rightarrow> r | None \<Rightarrow> ''tool_calls'') \<rparr>
      else
        \<lparr> lr_content = None, lr_toolCalls = None,
          lr_finishReason = (case ss_finishReason st of Some r \<Rightarrow> r | None \<Rightarrow> ''stop'') \<rparr>)"

definition initial_stream_state :: stream_state where
  "initial_stream_state =
     \<lparr> ss_buffer = '''', ss_toolCallState = [], ss_finishReason = None, ss_yielded = [] \<rparr>"

text \<open>
  \<open>OpenAIProvider.stream\<close>, from the point where the response body is at hand: the fragments
  it yields for the decoded chunks of the body, in order.
\<close>

definition OpenAIProvider_stream ::
  "builtins \<Rightarrow> (string \<Rightarrow> StreamChunk option) \<Rightarrow> string list \<Rightarrow> LLMResponse list" where
  "OpenAIProvider_stream bi parse_chunk body =
     (let st = foldl (feed_chunk bi parse_chunk) initial_stream_state body
      in ss_yielded st @ [final_fragment bi st])"

section \<open>Message mapping of the Anthropic adapter (AnthropicProvider, src/providers/adapters)\<close>

text \<open>
  A message of the conversation is a \<open>Record<string, unknown>\<close>: the list of its properties.
\<close>

type_synonym message = "(string \<times> jsval) list"

datatype AnthropicContentBlock =
  TextBlock string
| ToolUseBlock string string jsval
| ToolResultBlock string string

text \<open>
  \<open>TextBlock text\<close>, \<open>ToolUseBlock id name input\<close> and \<open>ToolResultBlock tool_use_id content\<close>.
  The type \<open>AnthropicMessage\<close> restricts \<open>role\<close> to two literals; the model keeps the role
  as a string, so that which roles occur is a property to prove.
\<close>

datatype AnthropicContent =
  ContentText string
| ContentBlocks "AnthropicContentBlock list"

record AnthropicMessage =
  am_role :: string
  am_content :: AnthropicContent

subsection \<open>mapOpenAIToolCalls\<close>

record mapped_call =
  mc_id :: string
  mc_name :: string
  mc_input :: jsval

text \<open>
  The callback of \<open>toolCalls.map\<close>. The first property read, \<open>raw.id\<close>, throws a TypeError
  when the element is \<open>null\<close> or \<open>undefined\<close>.
\<close>

definition mapOpenAIToolCall :: "builtins \<Rightarrow> jsval \<Rightarrow> nat \<Rightarrow> thrown + mapped_call" where
  "mapOpenAIToolCall bi raw index =
     (if raw = JNull \<or> raw = JUndefined then
        Inl (ThrownTypeError ''Cannot read properties of null or undefined'')
      else
        let id = String_coerce bi
                   (nullish_or (get_prop raw ''id'') (JString (''tool_'' @ show_nat index)));
            name = String_coerce bi
                     (nullish_or (get_prop (get_prop raw ''function'') ''name'')
                        (nullish_or (get_prop raw ''name'') (JString '''')));
            argsRaw =
              (case get_prop (get_prop raw ''function'') ''arguments'' of
                 JString a \<Rightarrow> a
               | _ \<Rightarrow> (case get_prop raw ''arguments'' of JString a \<Rightarrow> a | _ \<Rightarrow> ''''));
            args =
              (if length argsRaw > 0 then safeParseArguments bi argsRaw
               else if truthy (get_prop raw ''arguments'')
                       \<and> typeof (get_prop raw ''arguments'') = ''object''
                    then get_prop raw ''arguments''
               else JObject [])
        in Inr \<lparr> mc_id = id, mc_name = name, mc_input = args \<rparr>)"

text \<open>\<open>xs.map((x, index) => f(x, index))\<close> for a callback that may throw.\<close>

fun map_indexed :: "('a \<Rightarrow> nat \<Rightarrow> 'e + 'b) \<Rightarrow> 'a list \<Rightarrow> nat \<Rightarrow> 'e + 'b list" where
  "map_indexed f [] index = Inr []"
| "map_indexed f (x # xs) index =
     (case f x index of
        Inl e \<Rightarrow> Inl e
      | Inr y \<Rightarrow> (case map_indexed f xs (index + 1) of
                    Inl e \<Rightarrow> Inl e
                  | Inr ys \<Rightarrow> Inr (y # ys)))"

definition mapOpenAIToolCalls :: "builtins \<Rightarrow> jsval \<Rightarrow> thrown + mapped_call list" where
  "mapOpenAIToolCalls bi toolCalls =
     (case toolCalls of
        JArray calls \<Rightarrow> map_indexed (mapOpenAIToolCall bi) calls 0
      | _ \<Rightarrow> Inr [])"

subsection \<open>mapMessages\<close>

text \<open>\<open>const role = String(msg.role ?? "")\<close>.\<close>

definition message_role :: "builtins \<Rightarrow> message \<Rightarrow> string" where
  "message_role bi msg =
     String_coerce bi (nullish_or (get_prop (JObject msg) ''role'') (JString ''''))"

text \<open>\<open>normalizeContent(msg.content) ?? ""\<close>.\<close>

definition content_or_empty :: "builtins \<Rightarrow> message \<Rightarrow> string" where
  "content_or_empty bi msg =
     (case normalizeContent bi (get_prop (JObject msg) ''content'') of
        Some text \<Rightarrow> text
      | None \<Rightarrow> '''')"

text \<open>The body of \<open>for (const msg of messages)\<close>, with the two arrays it pushes to.\<close>

fun mapMessages_loop ::
  "builtins \<Rightarrow> message list \<Rightarrow> string list \<Rightarrow> AnthropicMessage list
     \<Rightarrow> thrown + (string list \<times> AnthropicMessage list)" where
  "mapMessages_loop bi [] systemParts out = Inr (systemParts, out)"
| "mapMessages_loop bi (msg # rest) systemParts out =
     (let role = message_role bi msg in
      if role = ''system'' then
        (case normalizeContent bi (get_prop (JObject msg) ''content'') of
           Some text \<Rightarrow>
             if text \<noteq> '''' then mapMessages_loop bi rest (systemParts @ [text]) out
             else mapMessages_loop bi rest systemParts out
         | None \<Rightarrow> mapMessages_loop bi rest systemParts out)
      else if role = ''tool'' then
        (let toolResult = content_or_empty bi msg;
             toolUseId = String_coerce bi
                           (nullish_or (get_prop (JObject msg) ''tool_call_id'') (JString ''''));
             name = String_coerce bi (nullish_or (get_prop (JObject msg) ''name'') (JString ''''));
             blocks =
               [ToolResultBlock
                  (if toolUseId \<noteq> '''' then toolUseId
                   else if name \<noteq> '''' then name
                   else ''tool_result'')
                  toolResult]
         in mapMessages_loop bi rest systemParts
              (out @ [\<lparr> am_role = ''user'', am_content = ContentBlocks blocks \<rparr>]))
      else if role = ''assistant'' then
        (case mapOpenAIToolCalls bi (get_prop (JObject msg) ''tool_calls'') of
           Inl e \<Rightarrow> Inl e
         | Inr toolCalls \<Rightarrow>
             (let text = content_or_empty bi msg in
              if length toolCalls > 0 then
                (let blocks =
                       (if text \<noteq> '''' then [TextBlock text] else [])
                       @ map (\<lambda>call. ToolUseBlock (mc_id call) (mc_name call) (mc_input call))
                           toolCalls
                 in mapMessages_loop bi rest systemParts
                      (out @ [\<lparr> am_role = ''assistant'', am_content = ContentBlocks blocks \<rparr>]))
              else
                mapMessages_loop bi rest systemParts
                  (out @ [\<lparr> am_role = ''assistant'', am_content = ContentText text \<rparr>])))
      else if role = ''user'' then
        mapMessages_loop bi rest systemParts
          (out @ [\<lparr> am_role = ''user'', am_content = ContentText (content_or_empty bi msg) \<rparr>])
      else mapMessages_loop bi rest systemParts out)"

text \<open>\<open>parts.join(sep)\<close>.\<close>

fun join :: "string \<Rightarrow> string list \<Rightarrow> string" where
  "join sep [] = ''''"
| "join sep [x] = x"
| "join sep (x # y # ys) = x @ sep @ join sep (y # ys)"

record mapped_messages =
  mm_system :: "string option"
  mm_messages :: "AnthropicMessage list"

definition mapMessages :: "builtins \<Rightarrow> message list \<Rightarrow> thrown + mapped_messages" where
  "mapMessages bi messages =
     (case mapMessages_loop bi messages [] [] of
        Inl e \<Rightarrow> Inl e
      | Inr (systemParts, out) \<Rightarrow>
          Inr \<lparr> mm_system = (if length systemParts > 0
                              then Some (join [newline, newline] systemParts) else None),
                mm_messages = out \<rparr>)"

section \<open>The session store (src/agent/session.ts)\<close>

text \<open>
  \<open>content\<close> is declared \<open>string | null\<close>; \<open>load\<close> stores whatever \<open>parsed.content\<close> holds,
  so the model keeps a value.
\<close>

record SessionMessage =
  sm_role :: string
  sm_content :: jsval
  sm_timestamp :: string

record Session =
  s_key :: string
  s_createdAt :: string
  s_updatedAt :: string
  s_messages :: "SessionMessage list"
  s_lastSavedIndex :: nat

text \<open>
  A reading of the clock, \<open>new Date().toISOString()\<close>, is an argument of the function that
  takes it.
\<close>

definition new_Session :: "string \<Rightarrow> SessionMessage list option \<Rightarrow> string \<Rightarrow> Session" where
  "new_Session key messages now =
     (case messages of
        Some ms \<Rightarrow>
          if length ms > 0 then
            \<lparr> s_key = key, s_createdAt = now, s_updatedAt = now, s_messages = ms,
              s_lastSavedIndex = length ms \<rparr>
          else
            \<lparr> s_key = key, s_createdAt = now, s_updatedAt = now, s_messages = [],
              s_lastSavedIndex = 0 \<rparr>
      | None \<Rightarrow>
          \<lparr> s_key = key, s_createdAt = now, s_updatedAt = now, s_messages = [],
            s_lastSavedIndex = 0 \<rparr>)"

definition addMessage :: "Session \<Rightarrow> string \<Rightarrow> jsval \<Rightarrow> string \<Rightarrow> Session" where
  "addMessage session role content now =
     (let msg = \<lparr> sm_role = role, sm_content = content, sm_timestamp = now \<rparr>
      in session\<lparr> s_messages := s_messages session @ [msg], s_updatedAt := sm_timestamp msg \<rparr>)"

definition getHistory :: "Session \<Rightarrow> SessionMessage list" where
  "getHistory session = s_messages session"

definition getUnsavedMessages :: "Session \<Rightarrow> SessionMessage list" where
  "getUnsavedMessages session = drop (s_lastSavedIndex session) (s_messages session)"

definition markSaved :: "Session \<Rightarrow> Session" where
  "markSaved session = session\<lparr> s_lastSavedIndex := length (s_messages session) \<rparr>"

subsection \<open>SessionManager\<close>

text \<open>
  The manager holds the sessions it has handed out, by key, and its base directory. It keeps
  one JSONL file per session, at \<open>path.join(baseDir, key + ".jsonl")\<close>. The file system it
  writes to is the map \<open>files\<close> from the path of a file to its text; a path without a file
  is the \<open>ENOENT\<close> case of \<open>load\<close>. Two keys that \<open>path.join\<close> sends to the same path share
  a file. Other failures of the file system are not part of the model, and \<open>mkdir\<close> changes
  no file.
\<close>

record SessionManager =
  sessions :: "string \<rightharpoonup> Session"
  baseDir :: string
  files :: "string \<rightharpoonup> string"

definition getSessionPath :: "builtins \<Rightarrow> SessionManager \<Rightarrow> string \<Rightarrow> string" where
  "getSessionPath bi mgr key = path_join bi (baseDir mgr) (key @ ''.jsonl'')"

text \<open>
  \<open>raw.split(/\r?\n/)\<close>: the text between the line ends, where a line end is a line feed
  with the carriage return before it, if there is one.
\<close>

definition carriage_return :: char where
  "carriage_return = CHR 0x0D"

fun split_lines :: "string \<Rightarrow> string list" where
  "split_lines [] = [[]]"
| "split_lines [c] = (if c = newline then [[], []] else [[c]])"
| "split_lines (c # d # cs) =
     (if c = newline then [] # split_lines (d # cs)
      else if c = carriage_return \<and> d = newline then [] # split_lines cs
      else (case split_lines (d # cs) of
              [] \<Rightarrow> [[c]]
            | line # rest \<Rightarrow> (c # line) # rest))"

text \<open>One line of the file, in \<open>load\<close>: the message it contributes, if any.\<close>

definition load_line :: "builtins \<Rightarrow> string \<Rightarrow> string \<Rightarrow> SessionMessage option" where
  "load_line bi now line =
     (case JSON_parse bi line of
        None \<Rightarrow> None
      | Some parsed \<Rightarrow>
          if truthy parsed \<and> truthy (get_prop parsed ''role'') then
            Some \<lparr> sm_role = String_coerce bi (get_prop parsed ''role''),
                   sm_content = nullish_or (get_prop parsed ''content'') JNull,
                   sm_timestamp =
                     String_coerce bi (nullish_or (get_prop parsed ''timestamp'') (JString now)) \<rparr>
          else None)"

definition load :: "builtins \<Rightarrow> SessionManager \<Rightarrow> string \<Rightarrow> string \<Rightarrow> Session option" where
  "load bi mgr key now =
     (let filePath = getSessionPath bi mgr key in
      case files mgr filePath of
        None \<Rightarrow> None
      | Some raw \<Rightarrow>
          (let lines = filter (\<lambda>line. trim line \<noteq> '''') (split_lines raw);
               messages = List.map_filter (load_line bi now) lines
           in if length messages = 0 then None
              else Some (new_Session key (Some messages) now)))"

definition getOrCreate ::
  "builtins \<Rightarrow> SessionManager \<Rightarrow> string \<Rightarrow> string \<Rightarrow> Session \<times> SessionManager" where
  "getOrCreate bi mgr key now =
     (case sessions mgr key of
        Some existing \<Rightarrow> (existing, mgr)
      | None \<Rightarrow>
          (let session = (case load bi mgr key now of
                            Some loaded \<Rightarrow> loaded
                          | None \<Rightarrow> new_Session key None now)
           in (session, mgr\<lparr> sessions := (sessions mgr)(key \<mapsto> session) \<rparr>)))"

text \<open>\<open>JSON.stringify(msg)\<close> for a session message.\<close>

definition stringify_message :: "builtins \<Rightarrow> SessionMessage \<Rightarrow> string option" where
  "stringify_message bi msg =
     JSON_stringify bi
       (JObject [(''role'', JString (sm_role msg)), (''content'', sm_content msg),
                 (''timestamp'', JString (sm_timestamp msg))])"

text \<open>\<open>xs.map(f)\<close> for an \<open>f\<close> that may throw: the results, or \<open>None\<close> at the first throw.\<close>

fun map_option_all :: "('a \<Rightarrow> 'b option) \<Rightarrow> 'a list \<Rightarrow> 'b list option" where
  "map_option_all f [] = Some []"
| "map_option_all f (x # xs) =
     (case f x of
        None \<Rightarrow> None
      | Some y \<Rightarrow> (case map_option_all f xs of None \<Rightarrow> None | Some ys \<Rightarrow> Some (y # ys)))"

text \<open>
  \<open>fs.appendFile(filePath, payload)\<close>: the payload is put after the text that the file has,
  and a file that does not exist is created.
\<close>

definition appendFile :: "(string \<rightharpoonup> string) \<Rightarrow> string \<Rightarrow> string \<Rightarrow> (string \<rightharpoonup> string)" where
  "appendFile fs filePath payload =
     fs(filePath \<mapsto> (case fs filePath of None \<Rightarrow> '''' | Some old \<Rightarrow> old) @ payload)"

text \<open>
  \<open>save\<close>: the manager and the session after the call, and the exception if
  \<open>JSON.stringify\<close> threw.
\<close>

definition save ::
  "builtins \<Rightarrow> SessionManager \<Rightarrow> Session \<Rightarrow> thrown option \<times> SessionManager \<times> Session" where
  "save bi mgr session =
     (let filePath = getSessionPath bi mgr (s_key session);
          toSave = getUnsavedMessages session
      in
      if length toSave = 0 then (None, mgr, session)
      else
        (case map_option_all (stringify_message bi) toSave of
           None \<Rightarrow> (Some (ThrownTypeError ''JSON.stringify''), mgr, session)
         | Some lines \<Rightarrow>
             (let payload = join [newline] lines @ [newline]
              in (None, mgr\<lparr> files := appendFile (files mgr) filePath payload \<rparr>,
                  markSaved session))))"

section \<open>Tools and providers as the agent loop sees them\<close>

subsection \<open>Tool and ToolRegistry (src/agent/tools/base.ts, registry.ts)\<close>

text \<open>
  A tool runs in a world \<open>'w\<close> (file system, processes, network) that it may change; it
  returns a text or throws.
\<close>

record 'w Tool =
  tool_name :: string
  tool_description :: string
  tool_parameters :: jsval
  tool_execute :: "'w \<Rightarrow> jsval \<Rightarrow> (thrown + string) \<times> 'w"

definition toSchema :: "'w Tool \<Rightarrow> jsval" where
  "toSchema tool =
     JObject [(''type'', JString ''function''),
              (''function'',
                 JObject [(''name'', JString (tool_name tool)),
                          (''description'', JString (tool_description tool)),
                          (''parameters'', tool_parameters tool)])]"

text \<open>The registry is its \<open>Map\<close> from names to tools.\<close>

type_synonym 'w ToolRegistry = "(string \<times> 'w Tool) list"

definition register :: "'w ToolRegistry \<Rightarrow> 'w Tool \<Rightarrow> 'w ToolRegistry" where
  "register tools tool = Map_set tools (tool_name tool) tool"

definition getDefinitions :: "'w ToolRegistry \<Rightarrow> jsval list" where
  "getDefinitions tools = map toSchema (Map_values tools)"

definition execute :: "'w ToolRegistry \<Rightarrow> string \<Rightarrow> jsval \<Rightarrow> 'w \<Rightarrow> (thrown + string) \<times> 'w" where
  "execute tools name params w =
     (case Map_get tools name of
        None \<Rightarrow> (Inl (ThrownError (''Tool not found: '' @ name)), w)
      | Some tool \<Rightarrow> tool_execute tool w params)"

subsection \<open>LLMProvider (src/providers/llm.ts)\<close>

text \<open>
  \<open>chat\<close> returns a response or throws. The optional \<open>stream\<close> yields fragments and then
  ends, or throws after the fragments it has yielded.
\<close>

record 'w LLMProvider =
  provider_chat :: "'w \<Rightarrow> message list \<Rightarrow> jsval list \<Rightarrow> (thrown + LLMResponse) \<times> 'w"
  provider_stream ::
    "('w \<Rightarrow> message list \<Rightarrow> jsval list \<Rightarrow> (LLMResponse list \<times> thrown option) \<times> 'w) option"

section \<open>The agent loop (src/agent/loop.ts)\<close>

datatype AgentEvent =
  StatusEvent string
| ToolCallEvent string jsval
| ToolResultEvent string string
| ToolErrorEvent string string

text \<open>
  An \<open>AgentLoop\<close> object: its provider, its tool registry and its iteration cap, together
  with the runtime it runs on (the built-in functions and the clock, read from the world).
  The session manager is the state that \<open>runOnce\<close> and \<open>runOnceStream\<close> take and return.
\<close>

record 'w AgentLoop =
  al_provider :: "'w LLMProvider"
  al_tools :: "'w ToolRegistry"
  al_maxIterations :: nat
  al_builtins :: builtins
  al_now :: "'w \<Rightarrow> string"

text \<open>The constructor: \<open>maxIterations\<close> is initialised to 4.\<close>

definition new_AgentLoop ::
  "'w LLMProvider \<Rightarrow> 'w ToolRegistry \<Rightarrow> builtins \<Rightarrow> ('w \<Rightarrow> string) \<Rightarrow> 'w AgentLoop" where
  "new_AgentLoop provider tools bi now =
     \<lparr> al_provider = provider, al_tools = tools, al_maxIterations = 4, al_builtins = bi,
       al_now = now \<rparr>"

text \<open>
  What one turn has done so far: the in-memory message list, the world, and a record of the
  calls made: how often the provider was invoked, the responses that \<open>chat\<close> has returned,
  which tool executions were started, the texts passed to \<open>onDelta\<close> and the events passed
  to \<open>onEvent\<close>.
\<close>

record 'w turn_state =
  ts_messages :: "message list"
  ts_world :: 'w
  ts_provider_calls :: nat
  ts_responses :: "LLMResponse list"
  ts_executed :: "(string \<times> jsval) list"
  ts_deltas :: "string list"
  ts_events :: "AgentEvent list"

text \<open>\<open>err instanceof Error ? err.message : String(err)\<close>.\<close>

fun thrown_message :: "thrown \<Rightarrow> string" where
  "thrown_message (ThrownProviderError e) = pe_message e"
| "thrown_message (ThrownAbortError m) = m"
| "thrown_message (ThrownTypeError m) = m"
| "thrown_message (ThrownError m) = m"
| "thrown_message (ThrownValue s) = s"

subsection \<open>The assistant message that records the tool calls\<close>

text \<open>One element of \<open>tool_calls\<close>; \<open>JSON.stringify(call.arguments ?? {})\<close> may throw.\<close>

definition wire_tool_call :: "builtins \<Rightarrow> ToolCall \<Rightarrow> jsval option" where
  "wire_tool_call bi call =
     (case JSON_stringify bi (nullish_or (tc_arguments call) (JObject [])) of
        None \<Rightarrow> None
      | Some arguments \<Rightarrow>
          Some (JObject [(''id'', JString (tc_id call)), (''type'', JString ''function''),
                         (''function'',
                            JObject [(''name'', JString (tc_name call)),
                                     (''arguments'', JString arguments)])]))"

definition assistant_call_message :: "builtins \<Rightarrow> jsval \<Rightarrow> ToolCall list \<Rightarrow> thrown + message" where
  "assistant_call_message bi content toolCalls =
     (case map_option_all (wire_tool_call bi) toolCalls of
        None \<Rightarrow> Inl (ThrownTypeError ''JSON.stringify'')
      | Some tool_calls \<Rightarrow>
          Inr [(''role'', JString ''assistant''), (''content'', content),
               (''tool_calls'', JArray tool_calls)])"

definition tool_result_msg :: "ToolCall \<Rightarrow> string \<Rightarrow> message" where
  "tool_result_msg toolCall result =
     [(''role'', JString ''tool''), (''tool_call_id'', JString (tc_id toolCall)),
      (''name'', JString (tc_name toolCall)), (''content'', JString result)]"

text \<open>
  The test \<open>toolCalls && toolCalls.length > 0\<close> treats an absent list like an empty one:
  the calls of a response, none when the field is absent.
\<close>

definition present_calls :: "ToolCall list option \<Rightarrow> ToolCall list" where
  "present_calls toolCalls = (case toolCalls of None \<Rightarrow> [] | Some calls \<Rightarrow> calls)"

text \<open>\<open>response.content ?? null\<close> and \<open>streamedContent || null\<close>.\<close>

definition content_or_null :: "string option \<Rightarrow> jsval" where
  "content_or_null content = (case content of None \<Rightarrow> JNull | Some c \<Rightarrow> JString c)"

definition nonempty_or_null :: "string \<Rightarrow> jsval" where
  "nonempty_or_null s = (if s \<noteq> '''' then JString s else JNull)"

subsection \<open>Executing the tool calls of one response\<close>

text \<open>
  \<open>runOnce\<close>: \<open>for (const toolCall of response.toolCalls)\<close>, without a handler. A throw of
  \<open>execute\<close> leaves the loop, and the function, at once.
\<close>

fun execute_calls ::
  "'w ToolRegistry \<Rightarrow> ToolCall list \<Rightarrow> 'w turn_state \<Rightarrow> thrown option \<times> 'w turn_state" where
  "execute_calls tools [] st = (None, st)"
| "execute_calls tools (toolCall # rest) st =
     (case execute tools (tc_name toolCall) (tc_arguments toolCall) (ts_world st) of
        (Inl err, w') \<Rightarrow>
          (Some err,
           st\<lparr> ts_world := w',
                ts_executed := ts_executed st @ [(tc_name toolCall, tc_arguments toolCall)] \<rparr>)
      | (Inr result, w') \<Rightarrow>
          execute_calls tools rest
            (st\<lparr> ts_world := w',
                 ts_executed := ts_executed st @ [(tc_name toolCall, tc_arguments toolCall)],
                 ts_messages := ts_messages st @ [tool_result_msg toolCall result] \<rparr>))"

text \<open>
  \<open>runOnceStream\<close>: the same loop with its \<open>try\<close>/\<open>catch\<close>: a result is reported as a
  \<open>tool_result\<close> event and pushed as a tool message; a throw is reported as a \<open>tool_error\<close>
  event and thrown again.
\<close>

fun execute_calls_stream ::
  "'w ToolRegistry \<Rightarrow> ToolCall list \<Rightarrow> 'w turn_state \<Rightarrow> thrown option \<times> 'w turn_state" where
  "execute_calls_stream tools [] st = (None, st)"
| "execute_calls_stream tools (toolCall # rest) st =
     (case execute tools (tc_name toolCall) (tc_arguments toolCall) (ts_world st) of
        (Inl err, w') \<Rightarrow>
          (Some err,
           st\<lparr> ts_world := w',
                ts_executed := ts_executed st @ [(tc_name toolCall, tc_arguments toolCall)],
                ts_events := ts_events st
                  @ [ToolErrorEvent (tc_name toolCall) (thrown_message err)] \<rparr>)
      | (Inr result, w') \<Rightarrow>
          execute_calls_stream tools rest
            (st\<lparr> ts_world := w',
                 ts_executed := ts_executed st @ [(tc_name toolCall, tc_arguments toolCall)],
                 ts_events := ts_events st @ [ToolResultEvent (tc_name toolCall) result],
                 ts_messages := ts_messages st @ [tool_result_msg toolCall result] \<rparr>))"

subsection \<open>runOnce\<close>

text \<open>
  \<open>while (iteration < this.maxIterations)\<close>. The result is the exception that left the loop,
  or the value of \<open>finalContent\<close> after it (\<open>None\<close> for \<open>null\<close>).
\<close>

function runOnce_loop ::
  "'w AgentLoop \<Rightarrow> nat \<Rightarrow> string option \<Rightarrow> 'w turn_state
     \<Rightarrow> (thrown + string option) \<times> 'w turn_state" where
  "runOnce_loop agent iteration0 finalContent st =
     (if iteration0 < al_maxIterations agent then
        (let iteration = iteration0 + 1 in
         case provider_chat (al_provider agent) (ts_world st) (ts_messages st)
                (getDefinitions (al_tools agent)) of
           (Inl err, w') \<Rightarrow>
             (Inl err, st\<lparr> ts_world := w', ts_provider_calls := ts_provider_calls st + 1 \<rparr>)
         | (Inr response, w') \<Rightarrow>
             (let st1 = st\<lparr> ts_world := w', ts_provider_calls := ts_provider_calls st + 1,
                            ts_responses := ts_responses st @ [response] \<rparr>;
                  toolCalls = present_calls (lr_toolCalls response)
              in
              if length toolCalls > 0 then
                (case assistant_call_message (al_builtins agent)
                        (content_or_null (lr_content response)) toolCalls of
                   Inl err \<Rightarrow> (Inl err, st1)
                 | Inr msg \<Rightarrow>
                     (case execute_calls (al_tools agent) toolCalls
                             (st1\<lparr> ts_messages := ts_messages st1 @ [msg] \<rparr>) of
                        (Some err, st2) \<Rightarrow> (Inl err, st2)
                      | (None, st2) \<Rightarrow> runOnce_loop agent iteration finalContent st2))
              else
                (Inr (Some (case lr_content response of Some c \<Rightarrow> c | None \<Rightarrow> '''')), st1)))
      else (Inr finalContent, st))"
  by pat_completeness auto
termination
  by (relation "measure (\<lambda>(agent, iteration0, finalContent, st). al_maxIterations agent - iteration0)")
    auto

declare runOnce_loop.simps [simp del]

text \<open>The messages the turn starts from: the preamble, the history, the new user message.\<close>

definition initial_messages :: "Session \<Rightarrow> string \<Rightarrow> message list" where
  "initial_messages session userContent =
     [[(''role'', JString ''system''), (''content'', JString ''You are a helpful assistant.'')]]
     @ map (\<lambda>msg. [(''role'', JString (sm_role msg)), (''content'', sm_content msg)])
         (getHistory session)
     @ [[(''role'', JString ''user''), (''content'', JString userContent)]]"

definition initial_turn_state :: "Session \<Rightarrow> string \<Rightarrow> 'w \<Rightarrow> 'w turn_state" where
  "initial_turn_state session userContent w =
     \<lparr> ts_messages = initial_messages session userContent, ts_world = w,
       ts_provider_calls = 0, ts_responses = [], ts_executed = [], ts_deltas = [],
       ts_events = [] \<rparr>"

record 'w turn_result =
  tr_outcome :: "thrown + string"
  tr_manager :: SessionManager
  tr_state :: "'w turn_state"

text \<open>
  The end of both functions: the two \<open>addMessage\<close> calls, \<open>save\<close>, and the return. The
  session object is the one the manager holds under the session key.
\<close>

definition finish_turn ::
  "'w AgentLoop \<Rightarrow> SessionManager \<Rightarrow> string \<Rightarrow> Session \<Rightarrow> string \<Rightarrow> string \<Rightarrow> 'w turn_state
     \<Rightarrow> 'w turn_result" where
  "finish_turn agent mgr sessionKey session userContent finalContent st =
     (let session1 = addMessage session ''user'' (JString userContent) (al_now agent (ts_world st));
          session2 = addMessage session1 ''assistant'' (JString finalContent)
                       (al_now agent (ts_world st))
      in case save (al_builtins agent) mgr session2 of
           (Some err, mgr', session3) \<Rightarrow>
             \<lparr> tr_outcome = Inl err,
               tr_manager = mgr'\<lparr> sessions := (sessions mgr')(sessionKey \<mapsto> session3) \<rparr>,
               tr_state = st \<rparr>
         | (None, mgr', session3) \<Rightarrow>
             \<lparr> tr_outcome = Inr finalContent,
               tr_manager = mgr'\<lparr> sessions := (sessions mgr')(sessionKey \<mapsto> session3) \<rparr>,
               tr_state = st \<rparr>)"

definition runOnce ::
  "'w AgentLoop \<Rightarrow> SessionManager \<Rightarrow> 'w \<Rightarrow> string \<Rightarrow> string \<Rightarrow> 'w turn_result" where
  "runOnce agent mgr w sessionKey userContent =
     (case getOrCreate (al_builtins agent) mgr sessionKey (al_now agent w) of
        (session, mgr1) \<Rightarrow>
          (case runOnce_loop agent 0 None (initial_turn_state session userContent w) of
             (Inl err, st) \<Rightarrow> \<lparr> tr_outcome = Inl err, tr_manager = mgr1, tr_state = st \<rparr>
           | (Inr finalContent, st) \<Rightarrow>
               finish_turn agent mgr1 sessionKey session userContent
                 (case finalContent of Some c \<Rightarrow> c | None \<Rightarrow> '''') st))"

subsection \<open>runOnceStream\<close>

text \<open>
  The body of \<open>for await (const chunk of this.provider.stream(...))\<close>, on the triple of
  \<open>streamedContent\<close>, \<open>toolCalls\<close> (empty while undefined) and the texts given to \<open>onDelta\<close>.
\<close>

definition consume_chunk ::
  "string \<times> ToolCall list \<times> string list \<Rightarrow> LLMResponse
     \<Rightarrow> string \<times> ToolCall list \<times> string list" where
  "consume_chunk acc chunk =
     (case acc of
        (streamedContent, toolCalls, deltas) \<Rightarrow>
          (let text = (case lr_content chunk of Some c \<Rightarrow> c | None \<Rightarrow> '''');
               streamedContent' = (if length text > 0 then streamedContent @ text
                                   else streamedContent);
               deltas' = (if length text > 0 then deltas @ [text] else deltas);
               toolCalls' = (if length (present_calls (lr_toolCalls chunk)) > 0
                             then present_calls (lr_toolCalls chunk) else toolCalls)
           in (streamedContent', toolCalls', deltas')))"

text \<open>The \<open>tool_call\<close> events sent before the calls of a response are executed.\<close>

definition tool_call_events :: "ToolCall list \<Rightarrow> AgentEvent list" where
  "tool_call_events toolCalls =
     map (\<lambda>toolCall. ToolCallEvent (tc_name toolCall) (tc_arguments toolCall)) toolCalls"

text \<open>
  One pass through the body of \<open>while (iteration < this.maxIterations)\<close>. It ends the
  function with an exception (\<open>Inl (Inl err, st)\<close>), leaves the loop through \<open>break\<close> with
  the final content (\<open>Inl (Inr content, st)\<close>), or goes on to the next iteration with a
  value of \<open>finalContent\<close> (\<open>Inr (content, st)\<close>).
\<close>

definition runOnceStream_body ::
  "'w AgentLoop \<Rightarrow> string \<Rightarrow> 'w turn_state
     \<Rightarrow> ((thrown + string) \<times> 'w turn_state) + (string \<times> 'w turn_state)" where
  "runOnceStream_body agent finalContent st =
     (let st0 = st\<lparr> ts_events := ts_events st @ [StatusEvent ''thinking''] \<rparr> in
      case provider_stream (al_provider agent) of
        Some stream \<Rightarrow>
          (case stream (ts_world st0) (ts_messages st0) (getDefinitions (al_tools agent)) of
             ((chunks, thrown), w') \<Rightarrow>
               (case foldl consume_chunk ('''', [], []) chunks of
                  (streamedContent, toolCalls, deltas) \<Rightarrow>
                    (let st1 = st0\<lparr> ts_world := w',
                                    ts_provider_calls := ts_provider_calls st0 + 1,
                                    ts_deltas := ts_deltas st0 @ deltas \<rparr>
                     in
                     case thrown of
                       Some err \<Rightarrow> Inl (Inl err, st1)
                     | None \<Rightarrow>
                         if length toolCalls > 0 then
                           (let st2 = st1\<lparr> ts_events := ts_events st1
                                             @ tool_call_events toolCalls \<rparr>
                            in
                            case assistant_call_message (al_builtins agent)
                                   (nonempty_or_null streamedContent) toolCalls of
                              Inl err \<Rightarrow> Inl (Inl err, st2)
                            | Inr msg \<Rightarrow>
                                (case execute_calls_stream (al_tools agent) toolCalls
                                        (st2\<lparr> ts_messages := ts_messages st2 @ [msg] \<rparr>) of
                                   (Some err, st3) \<Rightarrow> Inl (Inl err, st3)
                                 | (None, st3) \<Rightarrow> Inr ('''', st3)))
                         else Inl (Inr streamedContent, st1))))
      | None \<Rightarrow>
          (case provider_chat (al_provider agent) (ts_world st0) (ts_messages st0)
                  (getDefinitions (al_tools agent)) of
             (Inl err, w') \<Rightarrow>
               Inl (Inl err,
                    st0\<lparr> ts_world := w', ts_provider_calls := ts_provider_calls st0 + 1 \<rparr>)
           | (Inr response, w') \<Rightarrow>
               (let st1 = st0\<lparr> ts_world := w',
                               ts_provider_calls := ts_provider_calls st0 + 1,
                               ts_responses := ts_responses st0 @ [response] \<rparr>;
                    toolCalls = present_calls (lr_toolCalls response)
                in
                if length toolCalls > 0 then
                  (let st2 = st1\<lparr> ts_events := ts_events st1 @ tool_call_events toolCalls \<rparr>
                   in
                   case assistant_call_message (al_builtins agent)
                          (content_or_null (lr_content response)) toolCalls of
                     Inl err \<Rightarrow> Inl (Inl err, st2)
                   | Inr msg \<Rightarrow>
                       (case execute_calls_stream (al_tools agent) toolCalls
                               (st2\<lparr> ts_messages := ts_messages st2 @ [msg] \<rparr>) of
                          (Some err, st3) \<Rightarrow> Inl (Inl err, st3)
                        | (None, st3) \<Rightarrow> Inr (finalContent, st3)))
                else
                  (let final = (case lr_content response of Some c \<Rightarrow> c | None \<Rightarrow> '''')
                   in Inl (Inr final,
                           st1\<lparr> ts_deltas := ts_deltas st1
                                  @ (if final \<noteq> '''' then [final] else []) \<rparr>)))))"

function runOnceStream_loop ::
  "'w AgentLoop \<Rightarrow> nat \<Rightarrow> string \<Rightarrow> 'w turn_state \<Rightarrow> (thrown + string) \<times> 'w turn_state" where
  "runOnceStream_loop agent iteration0 finalContent st =
     (if iteration0 < al_maxIterations agent then
        (let iteration = iteration0 + 1 in
         case runOnceStream_body agent finalContent st of
           Inl left \<Rightarrow> left
         | Inr (finalContent', st') \<Rightarrow> runOnceStream_loop agent iteration finalContent' st')
      else (Inr finalContent, st))"
  by pat_completeness auto
termination
  by (relation "measure (\<lambda>(agent, iteration0, finalContent, st). al_maxIterations agent - iteration0)")
    auto

declare runOnceStream_loop.simps [simp del]

definition runOnceStream ::
  "'w AgentLoop \<Rightarrow> SessionManager \<Rightarrow> 'w \<Rightarrow> string \<Rightarrow> string \<Rightarrow> 'w turn_result" where
  "runOnceStream agent mgr w sessionKey userContent =
     (case getOrCreate (al_builtins agent) mgr sessionKey (al_now agent w) of
        (session, mgr1) \<Rightarrow>
          (case runOnceStream_loop agent 0 '''' (initial_turn_state session userContent w) of
             (Inl err, st) \<Rightarrow> \<lparr> tr_outcome = Inl err, tr_manager = mgr1, tr_state = st \<rparr>
           | (Inr finalContent, st) \<Rightarrow>
               finish_turn agent mgr1 sessionKey session userContent finalContent st))"

section \<open>Predicates used in the statements\<close>

subsection \<open>Stream parser\<close>

text \<open>
  Every entry of the first accumulator is still present in the second, and its argument text
  there starts with the argument text it had.
\<close>

definition args_extend ::
  "(int \<times> ToolCallState) list \<Rightarrow> (int \<times> ToolCallState) list \<Rightarrow> bool" where
  "args_extend m m' =
     (\<forall>i e. Map_get m i = Some e \<longrightarrow>
        (\<exists>e' suffix. Map_get m' i = Some e' \<and> st_args e' = st_args e @ suffix))"

text \<open>None of the fragments carries tool calls.\<close>

definition text_only :: "LLMResponse list \<Rightarrow> bool" where
  "text_only rs = (\<forall>r \<in> set rs. lr_toolCalls r = None)"


subsection \<open>Anthropic message mapping, message by message\<close>

text \<open>The non-empty normalized contents of the system-role messages, in order.\<close>

definition system_texts :: "builtins \<Rightarrow> message list \<Rightarrow> string list" where
  "system_texts bi messages =
     filter (\<lambda>t. t \<noteq> '''')
       (map (content_or_empty bi) (filter (\<lambda>m. message_role bi m = ''system'') messages))"

text \<open>
  The id a tool-result block refers to: the message's \<open>tool_call_id\<close> as a string, or if
  that is absent or empty its \<open>name\<close>, or if that is absent or empty too the literal
  \<open>tool_result\<close>.
\<close>

definition tool_use_id_of :: "builtins \<Rightarrow> message \<Rightarrow> string" where
  "tool_use_id_of bi msg =
     (let i = String_coerce bi
                (nullish_or (get_prop (JObject msg) ''tool_call_id'') (JString ''''));
          n = String_coerce bi (nullish_or (get_prop (JObject msg) ''name'') (JString ''''))
      in if i \<noteq> '''' then i else if n \<noteq> '''' then n else ''tool_result'')"

definition tool_result_message :: "builtins \<Rightarrow> message \<Rightarrow> AnthropicMessage" where
  "tool_result_message bi msg =
     \<lparr> am_role = ''user'',
       am_content =
         ContentBlocks [ToolResultBlock (tool_use_id_of bi msg) (content_or_empty bi msg)] \<rparr>"

definition assistant_message :: "builtins \<Rightarrow> message \<Rightarrow> mapped_call list \<Rightarrow> AnthropicMessage" where
  "assistant_message bi msg toolCalls =
     \<lparr> am_role = ''assistant'',
       am_content =
         (if toolCalls = [] then ContentText (content_or_empty bi msg)
          else ContentBlocks
                 ((if content_or_empty bi msg \<noteq> '''' then [TextBlock (content_or_empty bi msg)]
                   else [])
                  @ map (\<lambda>call. ToolUseBlock (mc_id call) (mc_name call) (mc_input call))
                      toolCalls)) \<rparr>"

text \<open>
  The vendor messages that one conversation message contributes: none for a system message
  or a message of an unknown role, one otherwise.
\<close>

definition vendor_messages_of :: "builtins \<Rightarrow> message \<Rightarrow> AnthropicMessage list" where
  "vendor_messages_of bi msg =
     (if message_role bi msg = ''tool'' then [tool_result_message bi msg]
      else if message_role bi msg = ''assistant'' then
        (case mapOpenAIToolCalls bi (get_prop (JObject msg) ''tool_calls'') of
           Inl e \<Rightarrow> []
         | Inr toolCalls \<Rightarrow> [assistant_message bi msg toolCalls])
      else if message_role bi msg = ''user'' then
        [\<lparr> am_role = ''user'', am_content = ContentText (content_or_empty bi msg) \<rparr>]
      else [])"

subsection \<open>Agent loop\<close>

text \<open>Every one of the responses carries at least one tool call.\<close>

definition every_response_has_tool_calls :: "LLMResponse list \<Rightarrow> bool" where
  "every_response_has_tool_calls responses =
     (\<forall>r \<in> set responses. present_calls (lr_toolCalls r) \<noteq> [])"

text \<open>
  Nothing the loop calls ever throws: \<open>chat\<close> always returns, every tool call that a
  response asks for executes to a result in every world, and \<open>JSON.stringify\<close> returns.
\<close>

definition nothing_throws :: "'w AgentLoop \<Rightarrow> bool" where
  "nothing_throws agent =
     ((\<forall>w messages tools. \<exists>r w'.
         provider_chat (al_provider agent) w messages tools = (Inr r, w'))
      \<and> (\<forall>w messages tools r w' c w2.
           provider_chat (al_provider agent) w messages tools = (Inr r, w')
           \<and> c \<in> set (present_calls (lr_toolCalls r))
           \<longrightarrow> (\<exists>s w3. execute (al_tools agent) (tc_name c) (tc_arguments c) w2 = (Inr s, w3)))
      \<and> (\<forall>v. JSON_stringify (al_builtins agent) v \<noteq> None))"

text \<open>
  The state of the turn when a call of \<open>chat\<close> has thrown, and when it has returned the
  response \<open>r\<close>.
\<close>

definition after_chat :: "'w turn_state \<Rightarrow> 'w \<Rightarrow> 'w turn_state" where
  "after_chat st w' = st\<lparr> ts_world := w', ts_provider_calls := ts_provider_calls st + 1 \<rparr>"

definition after_response :: "'w turn_state \<Rightarrow> LLMResponse \<Rightarrow> 'w \<Rightarrow> 'w turn_state" where
  "after_response st r w' =
     st\<lparr> ts_world := w', ts_provider_calls := ts_provider_calls st + 1,
         ts_responses := ts_responses st @ [r] \<rparr>"


text \<open>No \<open>tool_error\<close> event is among the events.\<close>

definition no_tool_error :: "AgentEvent list \<Rightarrow> bool" where
  "no_tool_error evs = (\<forall>n m. ToolErrorEvent n m \<notin> set evs)"

text \<open>
  The turn stopped at a failed tool execution: the last event is the \<open>tool_error\<close> event
  with the message of the exception \<open>e\<close>, it is the only such event, and the last execution
  that was started is the one of the tool it names.
\<close>

definition ended_by_tool_error :: "'w turn_state \<Rightarrow> thrown \<Rightarrow> bool" where
  "ended_by_tool_error st e =
     (\<exists>evs exs n args.
        ts_events st = evs @ [ToolErrorEvent n (thrown_message e)] \<and> no_tool_error evs
        \<and> ts_executed st = exs @ [(n, args)])"

text \<open>
  What follows a response that carries tool calls, in both branches of the body: the events,
  the assistant message, the executions.
\<close>

definition run_tool_calls ::
  "'w AgentLoop \<Rightarrow> jsval \<Rightarrow> ToolCall list \<Rightarrow> string \<Rightarrow> 'w turn_state
     \<Rightarrow> ((thrown + string) \<times> 'w turn_state) + (string \<times> 'w turn_state)" where
  "run_tool_calls agent content toolCalls continue_with st1 =
     (let st2 = st1\<lparr> ts_events := ts_events st1 @ tool_call_events toolCalls \<rparr> in
      case assistant_call_message (al_builtins agent) content toolCalls of
        Inl err \<Rightarrow> Inl (Inl err, st2)
      | Inr msg \<Rightarrow>
          (case execute_calls_stream (al_tools agent) toolCalls
                  (st2\<lparr> ts_messages := ts_messages st2 @ [msg] \<rparr>) of
             (Some err, st3) \<Rightarrow> Inl (Inl err, st3)
           | (None, st3) \<Rightarrow> Inr (continue_with, st3)))"

text \<open>An exit of the body or of the loop is clean, or it is the failure of a tool.\<close>

definition exit_ok :: "(thrown + string) \<times> 'w turn_state \<Rightarrow> bool" where
  "exit_ok left =
     (no_tool_error (ts_events (snd left))
      \<or> (\<exists>e. fst left = Inl e \<and> ended_by_tool_error (snd left) e))"

definition body_ok ::
  "((thrown + string) \<times> 'w turn_state) + (string \<times> 'w turn_state) \<Rightarrow> bool" where
  "body_ok b = (case b of Inl left \<Rightarrow> exit_ok left | Inr (c, st) \<Rightarrow> no_tool_error (ts_events st))"


subsection \<open>Session store\<close>

text \<open>
  A session never counts more saved messages than it has: the constructor sets
  \<open>lastSavedIndex\<close> to the number of loaded messages and \<open>markSaved\<close> to the number of
  messages, and nothing else writes it. A manager is well formed when each session it holds
  is, and carries the key under which it is held.
\<close>

definition wf_session :: "Session \<Rightarrow> bool" where
  "wf_session session = (s_lastSavedIndex session \<le> length (s_messages session))"

definition wf_manager :: "SessionManager \<Rightarrow> bool" where
  "wf_manager mgr =
     (\<forall>k session. sessions mgr k = Some session \<longrightarrow> wf_session session \<and> s_key session = k)"

section \<open>Example inputs\<close>

text \<open>
  The values of \<open>JSON.parse\<close>, \<open>JSON.stringify\<close> and \<open>String\<close> on the literals that the
  examples of this theory use. The examples never ask for a value outside these tables.
\<close>

definition JSON_parse_tbl :: "string \<Rightarrow> jsval option" where
  \<open>JSON_parse_tbl raw =
     (if raw = ''[1]'' then Some (JArray [JNumber 1])
      else if raw = ''{"path":"/tmp/a.txt"}'' then Some (JObject [(''path'', JString ''/tmp/a.txt'')])
      else if raw = ''{}'' then Some (JObject [])
      else if raw = ''{"role":"user","content":"hi","timestamp":"2026-01-01T00:00:00.000Z"}''
        then Some (JObject [(''role'', JString ''user''), (''content'', JString ''hi''),
                            (''timestamp'', JString ''2026-01-01T00:00:00.000Z'')])
      else if raw = ''{"role":"assistant","content":"","timestamp":"2026-01-01T00:00:00.000Z"}''
        then Some (JObject [(''role'', JString ''assistant''), (''content'', JString ''''),
                            (''timestamp'', JString ''2026-01-01T00:00:00.000Z'')])
      else None)\<close>

definition JSON_stringify_tbl :: "jsval \<Rightarrow> string option" where
  \<open>JSON_stringify_tbl v =
     (if v = JArray [] then Some ''[]''
      else if v = JObject [] then Some ''{}''
      else if v = JObject [(''path'', JString ''/tmp/a.txt'')] then Some ''{"path":"/tmp/a.txt"}''
      else if v = JObject [(''role'', JString ''user''), (''content'', JString ''hi''),
                           (''timestamp'', JString ''2026-01-01T00:00:00.000Z'')]
        then Some ''{"role":"user","content":"hi","timestamp":"2026-01-01T00:00:00.000Z"}''
      else if v = JObject [(''role'', JString ''assistant''), (''content'', JString ''''),
                           (''timestamp'', JString ''2026-01-01T00:00:00.000Z'')]
        then Some ''{"role":"assistant","content":"","timestamp":"2026-01-01T00:00:00.000Z"}''
      else None)\<close>

definition String_tbl :: "jsval \<Rightarrow> string" where
  "String_tbl v =
     (if v = JNumber 1 then ''1''
      else if v = JBool True then ''true''
      else if v = JBool False then ''false''
      else if v = JNull then ''null''
      else if v = JUndefined then ''undefined''
      else '''')"

text \<open>
  \<open>path.join\<close> as \<open>node:path\<close> computes it on POSIX: the non-empty segments are joined by a
  slash and the result is normalized. Empty and \<open>.\<close> components are dropped, and \<open>..\<close>
  removes the component before it, or stays when the path is relative and nothing is left to
  remove.
\<close>

fun split_on :: "char \<Rightarrow> string \<Rightarrow> string list" where
  "split_on sep [] = [[]]"
| "split_on sep (c # cs) =
     (if c = sep then [] # split_on sep cs
      else (case split_on sep cs of
              [] \<Rightarrow> [[c]]
            | part # rest \<Rightarrow> (c # part) # rest))"

fun normalize_parts :: "bool \<Rightarrow> string list \<Rightarrow> string list \<Rightarrow> string list" where
  "normalize_parts allowAboveRoot kept [] = rev kept"
| "normalize_parts allowAboveRoot kept (part # rest) =
     (if part = '''' \<or> part = ''.'' then normalize_parts allowAboveRoot kept rest
      else if part = ''..'' then
        (case kept of
           [] \<Rightarrow> normalize_parts allowAboveRoot (if allowAboveRoot then [''..''] else []) rest
         | k # ks \<Rightarrow>
             if k = ''..'' then normalize_parts allowAboveRoot (''..'' # kept) rest
             else normalize_parts allowAboveRoot ks rest)
      else normalize_parts allowAboveRoot (part # kept) rest)"

definition posix_normalize :: "string \<Rightarrow> string" where
  "posix_normalize p =
     (if p = '''' then ''.''
      else
        (let isAbsolute = (hd p = CHR ''/'');
             trailingSeparator = (last p = CHR ''/'');
             body = join ''/'' (normalize_parts (\<not> isAbsolute) [] (split_on (CHR ''/'') p))
         in if body = '''' then
              (if isAbsolute then ''/'' else if trailingSeparator then ''./'' else ''.'')
            else (if isAbsolute then ''/'' else '''') @ body
                 @ (if trailingSeparator then ''/'' else '''')))"

definition posix_join :: "string \<Rightarrow> string \<Rightarrow> string" where
  "posix_join a b =
     (if a = '''' \<and> b = '''' then ''.''
      else posix_normalize (if a = '''' then b else if b = '''' then a else a @ ''/'' @ b))"

definition js :: builtins where
  "js = \<lparr> JSON_parse = JSON_parse_tbl, JSON_stringify = JSON_stringify_tbl, String_of = String_tbl,
          path_join = posix_join \<rparr>"

subsection \<open>A tool call streamed in four events\<close>

text \<open>A chunk whose first choice carries one tool-call delta and nothing else.\<close>

definition tool_chunk :: "ToolCallDelta \<Rightarrow> StreamChunk" where
  "tool_chunk d =
     \<lparr> ck_choices =
         Some [\<lparr> ch_delta = Some \<lparr> d_content = JUndefined, d_tool_calls = Some [d] \<rparr>,
                 ch_finish_reason = None \<rparr>] \<rparr>"

text \<open>An event of the stream as the server frames it: \<open>data: payload\<close> and an empty line.\<close>

definition sse_line :: "string \<Rightarrow> string" where
  "sse_line payload = ''data: '' @ payload @ [newline, newline]"

text \<open>
  A payload that \<open>processLine\<close> hands to the decoder unchanged: not empty, no white space at
  either end, no line feed inside, and not the end marker.
\<close>

definition data_payload :: "string \<Rightarrow> bool" where
  "data_payload p =
     (p \<noteq> '''' \<and> \<not> is_space (hd p) \<and> \<not> is_space (last p) \<and> newline \<notin> set p
      \<and> p \<noteq> ''[DONE]'')"

text \<open>A backslash followed by a double quote, as JSON writes a quote inside a string.\<close>

definition esc_quote :: string where
  "esc_quote = [CHR 0x5C, CHR 0x22]"

definition payload_id :: string where
  \<open>payload_id = ''{"choices":[{"delta":{"tool_calls":[{"index":0,"id":"call_1"}]}}]}''\<close>

definition payload_name :: string where
  \<open>payload_name =
     ''{"choices":[{"delta":{"tool_calls":[{"index":0,"function":{"name":"read_file"}}]}}]}''\<close>

definition payload_args1 :: string where
  \<open>payload_args1 =
     ''{"choices":[{"delta":{"tool_calls":[{"index":0,"function":{"arguments":"{'' @ esc_quote
       @ ''path'' @ esc_quote @ '':'' @ esc_quote @ ''/tmp"}}]}}]}''\<close>

definition payload_args2 :: string where
  \<open>payload_args2 =
     ''{"choices":[{"delta":{"tool_calls":[{"index":0,"function":{"arguments":"/a.txt''
       @ esc_quote @ ''}"}}]}}]}''\<close>

text \<open>\<open>JSON.parse\<close> on these four payloads, read as stream chunks.\<close>

definition parse_chunk_tbl :: "string \<Rightarrow> StreamChunk option" where
  \<open>parse_chunk_tbl data =
     (if data = payload_id then
        Some (tool_chunk \<lparr> tcd_index = 0, tcd_id = Some ''call_1'', tcd_function = None \<rparr>)
      else if data = payload_name then
        Some (tool_chunk \<lparr> tcd_index = 0, tcd_id = None,
                tcd_function = Some \<lparr> fd_name = Some ''read_file'', fd_arguments = None \<rparr> \<rparr>)
      else if data = payload_args1 then
        Some (tool_chunk \<lparr> tcd_index = 0, tcd_id = None,
                tcd_function = Some \<lparr> fd_name = None, fd_arguments = Some ''{"path":"/tmp'' \<rparr> \<rparr>)
      else if data = payload_args2 then
        Some (tool_chunk \<lparr> tcd_index = 0, tcd_id = None,
                tcd_function = Some \<lparr> fd_name = None, fd_arguments = Some ''/a.txt"}'' \<rparr> \<rparr>)
      else None)\<close>

subsection \<open>A conversation with one tool round trip\<close>

definition tool_message_example :: message where
  "tool_message_example =
     [(''role'', JString ''tool''), (''tool_call_id'', JString ''call_1''),
      (''name'', JString ''read_file''), (''content'', JString ''contents'')]"

definition conversation_example :: "message list" where
  \<open>conversation_example =
     [[(''role'', JString ''system''), (''content'', JString ''You are a helpful assistant.'')],
      [(''role'', JString ''user''), (''content'', JString ''read it'')],
      [(''role'', JString ''assistant''), (''content'', JNull),
       (''tool_calls'',
          JArray [JObject [(''id'', JString ''call_1''), (''type'', JString ''function''),
                           (''function'',
                              JObject [(''name'', JString ''read_file''),
                                       (''arguments'', JString ''{"path":"/tmp/a.txt"}'')])]])],
      tool_message_example,
      [(''role'', JString ''system''), (''content'', JString ''Be brief.'')]]\<close>

definition conversation_mapped :: mapped_messages where
  "conversation_mapped =
     \<lparr> mm_system = Some (''You are a helpful assistant.'' @ [newline, newline] @ ''Be brief.''),
       mm_messages =
         [\<lparr> am_role = ''user'', am_content = ContentText ''read it'' \<rparr>,
          \<lparr> am_role = ''assistant'',
            am_content =
              ContentBlocks
                [ToolUseBlock ''call_1'' ''read_file''
                   (JObject [(''path'', JString ''/tmp/a.txt'')])] \<rparr>,
          \<lparr> am_role = ''user'',
            am_content = ContentBlocks [ToolResultBlock ''call_1'' ''contents''] \<rparr>] \<rparr>"

subsection \<open>Agents for the examples\<close>

text \<open>A provider without \<open>stream\<close> whose every response asks for one call of the named tool.\<close>

definition call_of :: "string \<Rightarrow> ToolCall" where
  "call_of name = \<lparr> tc_id = ''call_1'', tc_name = name, tc_arguments = JObject [] \<rparr>"

definition always_calls :: "string \<Rightarrow> unit LLMProvider" where
  "always_calls name =
     \<lparr> provider_chat =
         (\<lambda>w messages tools.
            (Inr \<lparr> lr_content = None, lr_toolCalls = Some [call_of name],
                   lr_finishReason = ''tool_calls'' \<rparr>, w)),
       provider_stream = None \<rparr>"

text \<open>The same provider with a \<open>stream\<close> that yields the call in its final fragment.\<close>

definition always_streams_call :: "string \<Rightarrow> unit LLMProvider" where
  "always_streams_call name =
     \<lparr> provider_chat =
         (\<lambda>w messages tools.
            (Inr \<lparr> lr_content = None, lr_toolCalls = Some [call_of name],
                   lr_finishReason = ''tool_calls'' \<rparr>, w)),
       provider_stream =
         Some (\<lambda>w messages tools.
                 (([\<lparr> lr_content = None, lr_toolCalls = Some [call_of name],
                       lr_finishReason = ''tool_calls'' \<rparr>], None), w)) \<rparr>"

text \<open>A registry with the single tool \<open>echo\<close>, which returns \<open>ok\<close>.\<close>

definition echo_tool :: "unit Tool" where
  "echo_tool =
     \<lparr> tool_name = ''echo'', tool_description = ''Echo.'',
       tool_parameters = JObject [(''type'', JString ''object'')],
       tool_execute = (\<lambda>w params. (Inr ''ok'', w)) \<rparr>"

definition echo_registry :: "unit ToolRegistry" where
  "echo_registry = register [] echo_tool"

definition clock :: "unit \<Rightarrow> string" where
  "clock w = ''2026-01-01T00:00:00.000Z''"

text \<open>A manager that has handed out no session, over a file system without files.\<close>

definition empty_manager :: SessionManager where
  "empty_manager =
     \<lparr> sessions = Map.empty, baseDir = ''/home/user/.yana/sessions'', files = Map.empty \<rparr>"


text \<open>
  An agent whose provider streams, in every iteration, a call of the tool \<open>nope\<close>, which
  the registry does not have.
\<close>

definition failing_stream_agent :: "unit AgentLoop" where
  "failing_stream_agent = new_AgentLoop (always_streams_call ''nope'') echo_registry js clock"

text \<open>The state in which the turn of the examples starts.\<close>

definition example_start :: "unit turn_state" where
  "example_start = initial_turn_state (new_Session ''s1'' None (clock ())) ''hi'' ()"

section \<open>Properties of rounding to the nearest double\<close>

subsection \<open>Powers of two and the binary exponent\<close>

lemma pow_53: "(2::real) ^ 53 * 2 powi (e - 52) = 2 powi (e + 1)"
proof -
  have "e + 1 = 53 + (e - 52)" by simp
  then have "(2::real) powi (e + 1) = 2 powi 53 * 2 powi (e - 52)"
    using power_int_add [of "2::real" 53 "e - 52"] by (simp add: add.commute)
  then show ?thesis by simp
qed

lemma pow_52: "(2::real) ^ 52 * 2 powi (e - 52) = 2 powi e"
proof -
  have "e = 52 + (e - 52)" by simp
  then have "(2::real) powi e = 2 powi 52 * 2 powi (e - 52)"
    using power_int_add [of "2::real" 52 "e - 52"] by simp
  then show ?thesis by simp
qed

lemma pow_split: "j \<le> k \<Longrightarrow> (2::real) powi k = of_int (2 ^ nat (k - j)) * 2 powi j"
proof -
  assume jk: "j \<le> k"
  have "(2::real) powi k = 2 powi (k - j) * 2 powi j"
    using power_int_add [of "2::real" "k - j" j] by simp
  moreover have "(2::real) powi (k - j) = of_int (2 ^ nat (k - j))"
    using jk by (simp add: power_int_def)
  ultimately show ?thesis by simp
qed

lemma log2i_bounds:
  "1 \<le> n \<Longrightarrow> 0 \<le> log2i n \<and> 2 ^ nat (log2i n) \<le> n \<and> n < 2 ^ nat (log2i n + 1)"
proof (induction n rule: log2i.induct)
  case (1 n)
  show ?case
  proof (cases "n < 2")
    case True
    with 1 have "n = 1" by simp
    then show ?thesis by (simp add: log2i.simps)
  next
    case False
    then have h: "1 \<le> n div 2" by simp
    from "1.IH" [OF False h] have ih0: "0 \<le> log2i (n div 2)"
      and ih1: "2 ^ nat (log2i (n div 2)) \<le> n div 2"
      and ih2: "n div 2 < 2 ^ nat (log2i (n div 2) + 1)"
      by simp_all
    have l: "log2i n = log2i (n div 2) + 1" using False by (subst log2i.simps) simp
    have p: "(2::int) ^ nat (log2i (n div 2) + 1) = 2 * 2 ^ nat (log2i (n div 2))"
      using ih0 by (simp add: nat_add_distrib)
    have p2: "(2::int) ^ nat (log2i (n div 2) + 1 + 1) = 2 * 2 ^ nat (log2i (n div 2) + 1)"
      using ih0 by (simp add: nat_add_distrib)
    show ?thesis unfolding l p2 using ih0 ih1 ih2 unfolding p by auto
  qed
qed

lemma exponent_bounds:
  assumes "x \<noteq> 0"
  shows "2 powi exponent x \<le> \<bar>x\<bar> \<and> \<bar>x\<bar> < 2 powi (exponent x + 1)"
proof (cases "1 \<le> \<bar>x\<bar>")
  case True
  let ?n = "\<lfloor>\<bar>x\<bar>\<rfloor>"
  have n: "1 \<le> ?n" using True by simp
  from log2i_bounds [OF n] have k: "0 \<le> log2i ?n" and lo: "2 ^ nat (log2i ?n) \<le> ?n"
    and hi: "?n < 2 ^ nat (log2i ?n + 1)" by simp_all
  have e: "exponent x = log2i ?n" using True by (simp add: exponent_def)
  have "(2::real) powi log2i ?n = of_int (2 ^ nat (log2i ?n))"
    using k by (simp add: power_int_def)
  also have "\<dots> \<le> of_int ?n" using lo by (simp only: of_int_le_iff)
  also have "\<dots> \<le> \<bar>x\<bar>" by simp
  finally have a: "2 powi exponent x \<le> \<bar>x\<bar>" unfolding e .
  have "?n + 1 \<le> 2 ^ nat (log2i ?n + 1)" using hi by simp
  then have "(of_int (?n + 1) :: real) \<le> of_int (2 ^ nat (log2i ?n + 1))"
    by (simp only: of_int_le_iff)
  moreover have "\<bar>x\<bar> < of_int (?n + 1)" by linarith
  moreover have "(of_int (2 ^ nat (log2i ?n + 1)) :: real) = 2 powi (log2i ?n + 1)"
    using k by (simp add: power_int_def)
  ultimately have "\<bar>x\<bar> < 2 powi (exponent x + 1)" unfolding e by linarith
  with a show ?thesis by simp
next
  case False
  then have lt: "\<bar>x\<bar> < 1" by simp
  have pos: "0 < \<bar>x\<bar>" using assms by simp
  let ?y = "1 / \<bar>x\<bar>"
  let ?n = "\<lceil>?y\<rceil> - 1"
  have y: "1 < ?y" using lt pos by simp
  then have n: "1 \<le> ?n" by linarith
  from log2i_bounds [OF n] have k: "0 \<le> log2i ?n" and lo: "2 ^ nat (log2i ?n) \<le> ?n"
    and hi: "?n < 2 ^ nat (log2i ?n + 1)" by simp_all
  have e: "exponent x = - log2i ?n - 1" using False by (simp add: exponent_def)
  have "(of_int (2 ^ nat (log2i ?n))::real) \<le> of_int ?n" using lo by (simp only: of_int_le_iff)
  moreover have "of_int ?n < ?y" by linarith
  ultimately have "(2::real) ^ nat (log2i ?n) < ?y" by simp
  then have "\<bar>x\<bar> * 2 ^ nat (log2i ?n) < 1" using pos by (simp add: field_simps)
  then have "\<bar>x\<bar> < 1 / 2 ^ nat (log2i ?n)" by (simp add: field_simps)
  also have "\<dots> = 2 powi (exponent x + 1)"
  proof -
    have e1: "exponent x + 1 = - log2i ?n" unfolding e by simp
    have e2: "(2::real) powi (- log2i ?n) = inverse (2 powi log2i ?n)"
      by (rule power_int_minus)
    have e3: "(2::real) powi log2i ?n = 2 ^ nat (log2i ?n)"
      using k by (simp add: power_int_def)
    show ?thesis by (simp only: e1 e2 e3 inverse_eq_divide)
  qed
  finally have b: "\<bar>x\<bar> < 2 powi (exponent x + 1)" .
  have "?n + 1 \<le> 2 ^ nat (log2i ?n + 1)" using hi by simp
  then have "(of_int (?n + 1)::real) \<le> of_int (2 ^ nat (log2i ?n + 1))" by (simp only: of_int_le_iff)
  moreover have "?y \<le> of_int (?n + 1)" by simp
  moreover have "(of_int (2 ^ nat (log2i ?n + 1))::real) = 2 ^ nat (log2i ?n + 1)" by simp
  ultimately have "?y \<le> 2 ^ nat (log2i ?n + 1)" by linarith
  then have "1 \<le> \<bar>x\<bar> * 2 ^ nat (log2i ?n + 1)" using pos by (simp add: field_simps)
  then have "1 / 2 ^ nat (log2i ?n + 1) \<le> \<bar>x\<bar>" by (simp add: field_simps)
  moreover have "1 / 2 ^ nat (log2i ?n + 1) = (2::real) powi (exponent x)"
  proof -
    have e1: "exponent x = - (log2i ?n + 1)" unfolding e by simp
    have e2: "(2::real) powi (- (log2i ?n + 1)) = inverse (2 powi (log2i ?n + 1))"
      by (rule power_int_minus)
    have e3: "(2::real) powi (log2i ?n + 1) = 2 ^ nat (log2i ?n + 1)"
      using k by (simp add: power_int_def)
    show ?thesis by (simp only: e1 e2 e3 inverse_eq_divide)
  qed
  ultimately have "2 powi exponent x \<le> \<bar>x\<bar>" by simp
  with b show ?thesis by simp
qed

lemma exponent_less:
  assumes "x \<noteq> 0" and "\<bar>x\<bar> < 2 powi k"
  shows "exponent x < k"
proof (rule ccontr)
  assume "\<not> exponent x < k"
  then have "(2::real) powi k \<le> 2 powi exponent x" by (intro power_int_increasing) simp_all
  with exponent_bounds [OF assms(1)] assms(2) show False by linarith
qed

lemma exponent_ge:
  assumes "2 powi k \<le> \<bar>x\<bar>"
  shows "k \<le> exponent x"
proof (rule ccontr)
  assume "\<not> k \<le> exponent x"
  then have "(2::real) powi (exponent x + 1) \<le> 2 powi k" by (intro power_int_increasing) simp_all
  moreover have "(0::real) < 2 powi k" by simp
  with assms have "0 < \<bar>x\<bar>" by linarith
  then have "x \<noteq> 0" by simp
  ultimately show False using exponent_bounds [of x] assms by linarith
qed

lemma exponent_mono:
  assumes "x \<noteq> 0" and "\<bar>x\<bar> \<le> \<bar>y\<bar>"
  shows "exponent x \<le> exponent y"
  using exponent_ge [of "exponent x" y] exponent_bounds [OF assms(1)] assms(2) by linarith

lemma round_half_even_of_int [simp]: "round_half_even (of_int n) = n"
  by (simp add: round_half_even_def)

lemma round_half_even_range: "\<lfloor>r\<rfloor> \<le> round_half_even r \<and> round_half_even r \<le> \<lfloor>r\<rfloor> + 1"
  by (simp add: round_half_even_def Let_def)

lemma round_half_even_mono:
  assumes "r \<le> s"
  shows "round_half_even r \<le> round_half_even s"
proof (cases "\<lfloor>r\<rfloor> = \<lfloor>s\<rfloor>")
  case True
  then show ?thesis using assms by (auto simp: round_half_even_def Let_def)
next
  case False
  then have "\<lfloor>r\<rfloor> + 1 \<le> \<lfloor>s\<rfloor>" using floor_mono [OF assms] by linarith
  then show ?thesis using round_half_even_range [of r] round_half_even_range [of s] by linarith
qed

lemma round_half_even_ge: "of_int n \<le> r \<Longrightarrow> n \<le> round_half_even r"
  using round_half_even_mono [of "of_int n" r] by simp

lemma round_half_even_le: "r \<le> of_int n \<Longrightarrow> round_half_even r \<le> n"
  using round_half_even_mono [of r "of_int n"] by simp

subsection \<open>Rounding is monotone and leaves doubles as they are\<close>

lemma exponent_minus [simp]: "exponent (- x) = exponent x"
  by (simp add: exponent_def)

lemma ulp_minus [simp]: "ulp (- x) = ulp x"
  by (simp add: ulp_def)

lemma ulp_pos [simp]: "0 < ulp x"
  by (simp add: ulp_def)

lemma ulp_nonneg [simp]: "0 \<le> ulp x"
  by (simp add: ulp_def)

lemma ulp_nonzero [simp]: "ulp x \<noteq> 0"
  by (simp add: ulp_def)

lemma round_half_even_zero [simp]: "round_half_even 0 = 0"
  by (simp add: round_half_even_def)

lemma round_nearest_zero [simp]: "round_nearest 0 = 0"
  by (simp add: round_nearest_def)

lemma round_nearest_minus: "round_nearest (- x) = - round_nearest x"
  by (cases "x = 0") (auto simp: round_nearest_def)

text \<open>
  The result of rounding is a multiple of the spacing with a significand of at most 53
  binary digits (or the power of two above them), and it is at most half a spacing away.
\<close>

lemma round_half_even_error: "\<bar>of_int (round_half_even r) - r\<bar> \<le> 1 / 2"
  unfolding round_half_even_def Let_def by (auto simp: abs_if) linarith+

lemma round_nearest_error: "\<bar>round_nearest x - x\<bar> \<le> ulp x / 2"
proof -
  have pos: "\<bar>of_int (round_half_even (y / ulp x)) * ulp x - y\<bar> \<le> ulp x / 2" for y
  proof -
    have "of_int (round_half_even (y / ulp x)) * ulp x - y
          = (of_int (round_half_even (y / ulp x)) - y / ulp x) * ulp x"
      by (simp add: algebra_simps)
    then have "\<bar>of_int (round_half_even (y / ulp x)) * ulp x - y\<bar>
          = \<bar>of_int (round_half_even (y / ulp x)) - y / ulp x\<bar> * ulp x"
      by (simp add: abs_mult)
    also have "\<dots> \<le> 1 / 2 * ulp x"
      by (intro mult_right_mono round_half_even_error) simp
    finally show ?thesis by simp
  qed
  show ?thesis
  proof (cases "x < 0")
    case True
    define a where "a = of_int (round_half_even (- x / ulp x)) * ulp x"
    have "- a - x = - (a - (- x))" by simp
    then have "\<bar>- a - x\<bar> = \<bar>a - (- x)\<bar>" by (simp only: abs_minus)
    moreover have "round_nearest x = - a" using True by (simp add: round_nearest_def a_def)
    ultimately show ?thesis using pos [of "- x"] by (simp add: a_def)
  next
    case False
    then show ?thesis using pos [of x] by (simp add: round_nearest_def)
  qed
qed

lemma round_nearest_grid:
  "\<exists>m. round_nearest x = of_int m * ulp x \<and> \<bar>m\<bar> \<le> 2 ^ 53"
proof -
  have grid: "0 \<le> round_half_even (y / ulp y) \<and> round_half_even (y / ulp y) \<le> 2 ^ 53"
    if y: "0 < y" for y
  proof -
    define e where "e = max (exponent y) (- 1022)"
    have u: "ulp y = 2 powi (e - 52)" by (simp add: ulp_def e_def)
    have "y < 2 powi (exponent y + 1)" using exponent_bounds [of y] y by simp
    also have "\<dots> \<le> 2 powi (e + 1)" by (intro power_int_increasing) (simp_all add: e_def)
    also have "\<dots> = of_int (2 ^ 53) * ulp y" unfolding u using pow_53 [of e] by simp
    finally have "y / ulp y \<le> of_int (2 ^ 53)" by (simp add: pos_divide_le_eq)
    then have "round_half_even (y / ulp y) \<le> 2 ^ 53" by (rule round_half_even_le)
    moreover have "0 \<le> y / ulp y" using y by simp
    then have "0 \<le> round_half_even (y / ulp y)" using round_half_even_ge [of 0] by simp
    ultimately show ?thesis by simp
  qed
  consider "x = 0" | "0 < x" | "x < 0" by linarith
  then show ?thesis
  proof cases
    case 1
    then show ?thesis by (intro exI [of _ 0]) simp
  next
    case 2
    with grid [OF 2] show ?thesis
      by (intro exI [of _ "round_half_even (x / ulp x)"]) (simp add: round_nearest_def)
  next
    case 3
    then have "0 < - x" by simp
    from grid [OF this] 3 show ?thesis
      by (intro exI [of _ "- round_half_even (- x / ulp x)"]) (simp add: round_nearest_def)
  qed
qed

lemma round_nearest_nonneg: "0 \<le> x \<Longrightarrow> 0 \<le> round_nearest x"
proof -
  assume x: "0 \<le> x"
  then have "0 \<le> x / ulp x" by simp
  then have "0 \<le> round_half_even (x / ulp x)" using round_half_even_ge [of 0] by simp
  then show ?thesis using x by (simp add: round_nearest_def)
qed

text \<open>Within one binade; across binades the power of two between them separates.\<close>

lemma round_nearest_mono_pos:
  assumes "0 < x" and "x \<le> y"
  shows "round_nearest x \<le> round_nearest y"
proof -
  define ex where "ex = max (exponent x) (- 1022)"
  define ey where "ey = max (exponent y) (- 1022)"
  have y: "0 < y" using assms by simp
  have ux: "ulp x = 2 powi (ex - 52)" and uy: "ulp y = 2 powi (ey - 52)"
    by (simp_all add: ulp_def ex_def ey_def)
  have rx: "round_nearest x = of_int (round_half_even (x / ulp x)) * ulp x"
    and ry: "round_nearest y = of_int (round_half_even (y / ulp y)) * ulp y"
    using assms y by (simp_all add: round_nearest_def)
  have "exponent x \<le> exponent y" using assms by (intro exponent_mono) simp_all
  then have le: "ex \<le> ey" by (simp add: ex_def ey_def)
  show ?thesis
  proof (cases "ex = ey")
    case True
    then have u: "ulp x = ulp y" by (simp add: ux uy)
    have "x / ulp y \<le> y / ulp y" using assms(2) by (simp add: divide_right_mono)
    then have "round_half_even (x / ulp y) \<le> round_half_even (y / ulp y)"
      by (rule round_half_even_mono)
    then show ?thesis unfolding rx ry u by (simp add: mult_right_mono)
  next
    case False
    with le have lt: "ex < ey" by simp
    have "x < 2 powi (exponent x + 1)" using exponent_bounds [of x] assms(1) by simp
    also have "\<dots> \<le> 2 powi (ex + 1)"
      by (intro power_int_increasing) (simp_all add: ex_def)
    also have "\<dots> = of_int (2 ^ 53) * ulp x" unfolding ux using pow_53 [of ex] by simp
    finally have "x / ulp x \<le> of_int (2 ^ 53)" by (simp add: pos_divide_le_eq)
    then have "round_half_even (x / ulp x) \<le> 2 ^ 53" by (rule round_half_even_le)
    then have "(of_int (round_half_even (x / ulp x)) :: real) \<le> of_int (2 ^ 53)"
      by (simp only: of_int_le_iff)
    then have "round_nearest x \<le> of_int (2 ^ 53) * ulp x"
      unfolding rx by (rule mult_right_mono) simp
    also have "\<dots> = 2 powi (ex + 1)" unfolding ux using pow_53 [of ex] by simp
    finally have a: "round_nearest x \<le> 2 powi (ex + 1)" .
    from lt have e: "ey = exponent y" unfolding ex_def ey_def by linarith
    have "of_int (2 ^ 52) * ulp y = 2 powi ey" unfolding uy using pow_52 [of ey] by simp
    also have "\<dots> \<le> y" using exponent_bounds [of y] y unfolding e by simp
    finally have "of_int (2 ^ 52) \<le> y / ulp y" by (simp add: pos_le_divide_eq)
    then have "2 ^ 52 \<le> round_half_even (y / ulp y)" by (rule round_half_even_ge)
    then have "(of_int (2 ^ 52) :: real) \<le> of_int (round_half_even (y / ulp y))"
      by (simp only: of_int_le_iff)
    then have "of_int (2 ^ 52) * ulp y \<le> round_nearest y"
      unfolding ry by (rule mult_right_mono) simp
    moreover have "of_int (2 ^ 52) * ulp y = 2 powi ey"
      unfolding uy using pow_52 [of ey] by simp
    ultimately have b: "2 powi ey \<le> round_nearest y" by simp
    have "(2::real) powi (ex + 1) \<le> 2 powi ey" using lt by (intro power_int_increasing) simp_all
    with a b show ?thesis by linarith
  qed
qed

lemma round_nearest_mono:
  assumes "x \<le> y"
  shows "round_nearest x \<le> round_nearest y"
proof -
  consider "0 < x" | "x = 0" | "x < 0" "0 \<le> y" | "y < 0" by linarith
  then show ?thesis
  proof cases
    case 1
    then show ?thesis using assms by (rule round_nearest_mono_pos)
  next
    case 2
    then show ?thesis using assms round_nearest_nonneg [of y] by simp
  next
    case 3
    have "0 \<le> round_nearest (- x)" using 3 by (intro round_nearest_nonneg) simp
    then have "round_nearest x \<le> 0" by (simp add: round_nearest_minus)
    then show ?thesis using round_nearest_nonneg [OF 3(2)] by linarith
  next
    case 4
    then have "0 < - y" and "- y \<le> - x" using assms by simp_all
    then have "round_nearest (- y) \<le> round_nearest (- x)" by (rule round_nearest_mono_pos)
    then show ?thesis by (simp add: round_nearest_minus)
  qed
qed

text \<open>
  A real \<open>m * 2 ^ k\<close> with an integer \<open>m\<close> of fewer than 54 binary digits and \<open>k\<close> not
  below the exponent of the subnormals is a double (when it is in range), and rounding leaves
  it as it is.
\<close>

lemma round_nearest_fix_pos:
  assumes "0 \<le> m" and "m < 2 ^ 53" and "- 1074 \<le> k"
  shows "round_nearest (of_int m * 2 powi k) = of_int m * 2 powi k"
proof (cases "m = 0")
  case True
  then show ?thesis by simp
next
  case False
  define x where "x = of_int m * (2::real) powi k"
  have m: "0 < m" using assms(1) False by simp
  then have x: "0 < x" by (simp add: x_def)
  then have x0: "x \<noteq> 0" by simp
  have "(of_int m :: real) < of_int (2 ^ 53)" using assms(2) by (simp only: of_int_less_iff)
  then have "x < of_int (2 ^ 53) * 2 powi k"
    unfolding x_def by (rule mult_strict_right_mono) simp
  also have "\<dots> = 2 powi (53 + k)" using power_int_add [of "2::real" 53 k] by simp
  finally have "\<bar>x\<bar> < 2 powi (53 + k)" using x by simp
  from exponent_less [OF x0 this] have "exponent x < 53 + k" .
  define j where "j = max (exponent x) (- 1022) - 52"
  have u: "ulp x = 2 powi j" by (simp add: ulp_def j_def)
  have jk: "j \<le> k" using \<open>exponent x < 53 + k\<close> assms(3) by (simp add: j_def)
  have "x = of_int m * (of_int (2 ^ nat (k - j)) * 2 powi j)"
    unfolding x_def using pow_split [OF jk] by simp
  then have q: "x / ulp x = of_int (m * 2 ^ nat (k - j))"
    unfolding u by simp
  have "round_nearest x = of_int (round_half_even (x / ulp x)) * ulp x"
    using x by (simp add: round_nearest_def)
  also have "\<dots> = of_int (m * 2 ^ nat (k - j)) * ulp x"
    unfolding q by (simp only: round_half_even_of_int)
  also have "\<dots> = x / ulp x * ulp x" unfolding q ..
  also have "\<dots> = x" by simp
  finally show ?thesis unfolding x_def .
qed

lemma round_nearest_fix:
  assumes "\<bar>m\<bar> < 2 ^ 53" and "- 1074 \<le> k"
  shows "round_nearest (of_int m * 2 powi k) = of_int m * 2 powi k"
proof (cases "0 \<le> m")
  case True
  then show ?thesis using assms by (intro round_nearest_fix_pos) simp_all
next
  case False
  then have "round_nearest (of_int (- m) * 2 powi k) = of_int (- m) * 2 powi k"
    using assms by (intro round_nearest_fix_pos) simp_all
  then show ?thesis using round_nearest_minus [of "of_int m * 2 powi k"] by simp
qed

lemma rd_mono: "x \<le> y \<Longrightarrow> dle (rd x) (rd y)"
  using round_nearest_mono [of x y] by (simp add: rd_def Let_def max_double_def)

lemma rd_fix:
  assumes "\<bar>m\<bar> < 2 ^ 53" and "- 1074 \<le> k" and "\<bar>of_int m * 2 powi k\<bar> \<le> max_double"
  shows "rd (of_int m * 2 powi k) = Fin (of_int m * 2 powi k)"
  using assms(3) unfolding rd_def Let_def round_nearest_fix [OF assms(1,2)] by auto

text \<open>An integer of fewer than 54 binary digits is a double.\<close>

lemma rd_int: "\<bar>m\<bar> < 2 ^ 53 \<Longrightarrow> rd (of_int m) = Fin (of_int m)"
proof -
  assume m: "\<bar>m\<bar> < 2 ^ 53"
  then have "\<bar>of_int m :: real\<bar> < of_int (2 ^ 53)"
    by (simp only: of_int_abs [symmetric] of_int_less_iff)
  then have "\<bar>of_int m * 2 powi 0\<bar> \<le> max_double" by (simp add: max_double_def)
  from rd_fix [OF m _ this] show ?thesis by simp
qed

subsection \<open>The doubles that the backoff computation meets\<close>

lemma literal_fifth: "literal 0.2 = Fin (3602879701896397 / 2 ^ 54)"
  by (simp add: literal_def rd_def round_nearest_def ulp_def exponent_def log2i.simps
      round_half_even_def max_double_def Let_def)

lemma literal_200: "literal 200 = Fin 200"
  using rd_int [of 200] by (simp add: literal_def)

lemma literal_2000: "literal 2000 = Fin 2000"
  using rd_int [of 2000] by (simp add: literal_def)

lemma rd_not_NaN [simp]: "rd x \<noteq> NaN"
  by (simp add: rd_def Let_def)

lemma dle_refl_rd [simp]: "dle (rd x) (rd x)"
  by (rule rd_mono) simp

lemma rd_nonneg: "0 \<le> x \<Longrightarrow> rd x = PInf \<or> (\<exists>z\<ge>0. rd x = Fin z)"
  using round_nearest_nonneg [of x] by (auto simp: rd_def Let_def max_double_def)

lemma rd_between:
  assumes "rd lo = Fin lo" and "rd hi = Fin hi" and "lo \<le> x" and "x \<le> hi"
  shows "\<exists>z. rd x = Fin z \<and> lo \<le> z \<and> z \<le> hi"
proof -
  have "dle (Fin lo) (rd x)" using rd_mono [OF assms(3)] assms(1) by simp
  moreover have "dle (rd x) (Fin hi)" using rd_mono [OF assms(4)] assms(2) by simp
  ultimately show ?thesis by (cases "rd x") simp_all
qed

text \<open>
  For a whole number \<open>e\<close> below \<open>2 ^ 50\<close>, \<open>Math.floor(e * 0.2)\<close> is \<open>e div 5\<close>: the
  product lies between \<open>e div 5\<close> and \<open>e div 5 + 7/8\<close>, which are doubles.
\<close>

lemma floor_fifth:
  assumes "e < 2 ^ 50"
  shows "Math_floor (Number_multiply (Fin (real e)) (literal 0.2)) = Fin (real (e div 5))"
proof -
  define q where "q = e div 5"
  define c :: real where "c = 3602879701896397 / 2 ^ 54"
  have e: "real e = 5 * real q + real (e mod 5)"
    unfolding q_def by (metis of_nat_add of_nat_mult of_nat_numeral div_mult_mod_eq mult.commute)
  have "e mod 5 \<le> 4" by presburger
  then have r: "real (e mod 5) \<le> 4" by linarith
  have q50: "real q < 2 ^ 50"
    using assms unfolding q_def
    by (metis div_le_dividend le_less_trans of_nat_less_iff of_nat_numeral of_nat_power)
  have e50: "real e < 2 ^ 50" using assms
    by (metis of_nat_less_iff of_nat_numeral of_nat_power)
  have lo: "real q \<le> real e * c" unfolding c_def e by simp
  have hi: "real e * c \<le> real q + 7 / 8"
  proof -
    have "real e * c = real e / 5 + real e * (1 / (5 * 2 ^ 54))" unfolding c_def by simp
    also have "\<dots> \<le> (real q + 4 / 5) + 2 ^ 50 * (1 / (5 * 2 ^ 54))"
      using r e50 unfolding e by (intro add_mono) simp_all
    also have "\<dots> \<le> real q + 7 / 8" by simp
    finally show ?thesis .
  qed
  have fq: "rd (real q) = Fin (real q)"
    using rd_int [of "int q"] q50 by simp
  have "\<bar>int (8 * q + 7)\<bar> < 2 ^ 53" using q50 by simp
  moreover have "\<bar>of_int (int (8 * q + 7)) * (2::real) powi (- 3)\<bar> \<le> max_double"
    using q50 by (simp add: max_double_def)
  ultimately have "rd (of_int (int (8 * q + 7)) * 2 powi (- 3))
                   = Fin (of_int (int (8 * q + 7)) * 2 powi (- 3))"
    by (intro rd_fix) simp_all
  moreover have "of_int (int (8 * q + 7)) * (2::real) powi (- 3) = real q + 7 / 8" by simp
  ultimately have fh: "rd (real q + 7 / 8) = Fin (real q + 7 / 8)" by (simp only:)
  from rd_between [OF fq fh lo hi] obtain z where
    z: "rd (real e * c) = Fin z" and "real q \<le> z" and "z \<le> real q + 7 / 8"
    by blast
  then have "\<lfloor>z\<rfloor> = int q" by linarith
  then show ?thesis
    unfolding literal_fifth c_def [symmetric] q_def [symmetric] using z by simp
qed

lemma delay_whole:
  assumes "e < 2 ^ 50"
  shows "Number_add (Fin (real e)) (Math_floor (Number_multiply (Fin (real e)) (literal 0.2)))
         = Fin (real (e + e div 5))"
proof -
  have "e + e div 5 < 2 ^ 53" using assms by simp
  then have "\<bar>int (e + e div 5)\<bar> < 2 ^ 53" by (simp only: abs_of_nat) simp
  from rd_int [OF this] have "rd (real e + real (e div 5)) = Fin (real (e + e div 5))"
    by simp
  then show ?thesis unfolding floor_fifth [OF assms] by simp
qed

lemma max_double_pos: "0 < max_double"
  by (simp add: max_double_def)

lemma max_double_less: "max_double < 2 powi k \<longleftrightarrow> 1024 \<le> k"
proof
  assume "1024 \<le> k"
  then have "(2::real) powi 1024 \<le> 2 powi k" by (intro power_int_increasing) simp_all
  moreover have "max_double < 2 powi 1024" by (simp add: max_double_def)
  ultimately show "max_double < 2 powi k" by linarith
next
  assume a: "max_double < 2 powi k"
  show "1024 \<le> k"
  proof (rule ccontr)
    assume "\<not> 1024 \<le> k"
    then have "(2::real) powi k \<le> 2 powi 1023" by (intro power_int_increasing) simp_all
    moreover have "2 powi 1023 \<le> max_double" by (simp add: max_double_def)
    ultimately show False using a by linarith
  qed
qed

lemma exponentiate2_cases:
  assumes "- 1074 \<le> k"
  shows "Number_exponentiate2 k = (if k \<le> 1023 then Fin (2 powi k) else PInf)"
proof -
  have "round_nearest (of_int 1 * 2 powi k) = of_int 1 * 2 powi k"
    using assms by (intro round_nearest_fix) simp_all
  then have r: "round_nearest (2 powi k) = 2 powi k" by simp
  have "(0::real) < 2 powi k" by simp
  then have "\<not> (2::real) powi k < - max_double" using max_double_pos by linarith
  then show ?thesis
    unfolding Number_exponentiate2_def rd_def Let_def r using max_double_less [of k] by auto
qed

lemma rd_nat_times_pow:
  assumes "b < 2 ^ 53" and "0 \<le> k"
  shows "rd (real b * 2 powi k)
         = (if real b * 2 powi k \<le> max_double then Fin (real b * 2 powi k) else PInf)"
proof -
  have "\<bar>int b\<bar> < 2 ^ 53" using assms(1) by simp
  then have "round_nearest (of_int (int b) * 2 powi k) = of_int (int b) * 2 powi k"
    using assms(2) by (intro round_nearest_fix) simp_all
  then have r: "round_nearest (real b * 2 powi k) = real b * 2 powi k" by simp
  have "0 \<le> real b * 2 powi k" by simp
  then have "\<not> real b * 2 powi k < - max_double" using max_double_pos by linarith
  then show ?thesis unfolding rd_def Let_def r by auto
qed

text \<open>The clamped exponential term for whole numbers of milliseconds.\<close>

lemma exp_whole:
  assumes "1 \<le> n" and "b < 2 ^ 53" and "m < 2 ^ 50" and "0 < b \<or> n \<le> 1024"
  shows "Math_min (Fin (real m)) (Number_multiply (Fin (real b)) (Number_exponentiate2 (n - 1)))
         = Fin (real (min m (b * 2 ^ nat (n - 1))))"
proof -
  define k where "k = n - 1"
  have k: "0 \<le> k" using assms(1) by (simp add: k_def)
  have p: "(2::real) powi k = 2 ^ nat k" using k by (simp add: power_int_def)
  have m: "real m < max_double" 
  proof -
    have "real m < 2 ^ 50" using assms(3) by (metis of_nat_less_iff of_nat_numeral of_nat_power)
    then show ?thesis by (simp add: max_double_def)
  qed
  have big: "min m (b * 2 ^ nat k) = m" if "max_double < real b * 2 ^ nat k"
  proof -
    have "real m < real (b * 2 ^ nat k)" using that m by simp
    then have "m < b * 2 ^ nat k" by (simp only: of_nat_less_iff)
    then show ?thesis by simp
  qed
  show ?thesis
  proof (cases "k \<le> 1023")
    case True
    then have e: "Number_exponentiate2 k = Fin (2 powi k)"
      using exponentiate2_cases [of k] k by simp
    show ?thesis
    proof (cases "real b * 2 powi k \<le> max_double")
      case True
      have "min (real m) (real b * 2 ^ nat k) = real (min m (b * 2 ^ nat k))"
        by (simp add: of_nat_min)
      with True show ?thesis
        unfolding k_def [symmetric] e using rd_nat_times_pow [OF assms(2) k] p
        by simp
    next
      case False
      then have "max_double < real b * 2 ^ nat k" using p by simp
      from big [OF this] False show ?thesis
        unfolding k_def [symmetric] e using rd_nat_times_pow [OF assms(2) k] by simp
    qed
  next
    case False
    then have e: "Number_exponentiate2 k = PInf"
      using exponentiate2_cases [of k] k by simp
    from False assms(4) have b: "0 < b" by (simp add: k_def)
    have "(2::real) powi 1024 \<le> 2 powi k" using False by (intro power_int_increasing) simp_all
    moreover have "max_double < 2 powi 1024" by (simp add: max_double_def)
    moreover have "(2::real) ^ nat k \<le> real b * 2 ^ nat k" using b by simp
    ultimately have "max_double < real b * 2 ^ nat k" using p by linarith
    from big [OF this] show ?thesis unfolding k_def [symmetric] e using b by simp
  qed
qed

lemma computeBackoffMs_whole:
  assumes "1 \<le> n" and "b < 2 ^ 53" and "m < 2 ^ 50" and "0 < b \<or> n \<le> 1024"
  shows "computeBackoffMs n (Fin (real b)) (Fin (real m))
         = Fin (real (min m (b * 2 ^ nat (n - 1)) + min m (b * 2 ^ nat (n - 1)) div 5))"
proof -
  have "min m (b * 2 ^ nat (n - 1)) < 2 ^ 50" using assms(3) by simp
  from delay_whole [OF this] show ?thesis
    unfolding computeBackoffMs_def Let_def exp_whole [OF assms] .
qed

subsection \<open>Monotonicity of the operations\<close>

lemma literal_fifth_simp [simp]: "literal (1 / 5) = Fin (3602879701896397 / 2 ^ 54)"
  using literal_fifth by simp

lemma literal_fifth_pos: "\<exists>c>0. literal 0.2 = Fin c"
  by (rule exI [of _ "3602879701896397 / 2 ^ 54"]) simp

text \<open>\<open>exp + Math.floor(exp * 0.2)\<close> does not decrease when \<open>exp\<close> grows.\<close>

lemma delay_mono:
  assumes "e \<le> e'"
  shows "dle (Number_add (Fin e) (Math_floor (Number_multiply (Fin e) (literal 0.2))))
             (Number_add (Fin e') (Math_floor (Number_multiply (Fin e') (literal 0.2))))"
proof -
  obtain c where c: "0 < c" and l: "literal 0.2 = Fin c" using literal_fifth_pos by blast
  have "e * c \<le> e' * c" using assms c by simp
  then have p: "dle (rd (e * c)) (rd (e' * c))" by (rule rd_mono)
  show ?thesis
  proof (cases "rd (e * c)")
    case (Fin z)
    show ?thesis
    proof (cases "rd (e' * c)")
      case (Fin z')
      with p \<open>rd (e * c) = Fin z\<close> have "z \<le> z'" by simp
      then have "e + of_int \<lfloor>z\<rfloor> \<le> e' + of_int \<lfloor>z'\<rfloor>"
        using assms by (intro add_mono) (simp_all add: floor_mono)
      then have "dle (rd (e + of_int \<lfloor>z\<rfloor>)) (rd (e' + of_int \<lfloor>z'\<rfloor>))" by (rule rd_mono)
      then show ?thesis unfolding l using Fin \<open>rd (e * c) = Fin z\<close> by simp
    next
      case PInf
      then show ?thesis unfolding l using Fin
        by (cases "rd (e + of_int \<lfloor>z\<rfloor>)") simp_all
    next
      case NInf
      with p Fin show ?thesis by simp
    next
      case NaN
      then show ?thesis by simp
    qed
  next
    case PInf
    with p have "rd (e' * c) = PInf" by (cases "rd (e' * c)") simp_all
    with PInf show ?thesis unfolding l by simp
  next
    case NInf
    show ?thesis
    proof (cases "rd (e' * c)")
      case (Fin z')
      then show ?thesis unfolding l using NInf
        by (cases "rd (e' + of_int \<lfloor>z'\<rfloor>)") simp_all
    next
      case PInf
      then show ?thesis unfolding l using NInf by simp
    next
      case NInf
      then show ?thesis unfolding l using \<open>rd (e * c) = NInf\<close> by simp
    next
      case NaN
      then show ?thesis by simp
    qed
  next
    case NaN
    then show ?thesis by simp
  qed
qed

lemma delay_not_NaN:
  "Number_add (Fin e) (Math_floor (Number_multiply (Fin e) (literal 0.2))) \<noteq> NaN"
  using delay_mono [of e e] by auto

text \<open>
  \<open>base * 2 ** k\<close> for a finite base: a number or an infinity of the sign of the base, except
  that a base of zero times the infinite power is NaN.
\<close>

lemma product_mono:
  assumes "0 < b" and "k \<le> k'"
  shows "(\<exists>z z'. Number_multiply (Fin b) (Number_exponentiate2 k) = Fin z
                 \<and> Number_multiply (Fin b) (Number_exponentiate2 k') = Fin z' \<and> z \<le> z')
         \<or> Number_multiply (Fin b) (Number_exponentiate2 k') = PInf"
proof -
  have "(2::real) powi k \<le> 2 powi k'" using assms(2) by (intro power_int_increasing) simp_all
  then have p: "dle (rd (2 powi k)) (rd (2 powi k'))" by (rule rd_mono)
  from rd_nonneg [of "2 powi k"] consider "rd (2 powi k) = PInf"
    | a where "0 \<le> a" "rd (2 powi k) = Fin a" by auto
  then show ?thesis
  proof cases
    case 1
    with p have "rd (2 powi k') = PInf" by (cases "rd (2 powi k')") simp_all
    then show ?thesis using assms(1) by (simp add: Number_exponentiate2_def)
  next
    case (2 a)
    from rd_nonneg [of "2 powi k'"] consider "rd (2 powi k') = PInf"
      | a' where "0 \<le> a'" "rd (2 powi k') = Fin a'" by auto
    then show ?thesis
    proof cases
      case 1
      then show ?thesis using assms(1) by (simp add: Number_exponentiate2_def)
    next
      case (2 a')
      with p \<open>rd (2 powi k) = Fin a\<close> have "a \<le> a'" by simp
      then have le: "b * a \<le> b * a'" using assms(1) by simp
      have "0 \<le> b * a" and "0 \<le> b * a'" using assms(1) \<open>0 \<le> a\<close> \<open>0 \<le> a'\<close> by simp_all
      from rd_nonneg [OF this(1)] rd_nonneg [OF this(2)] rd_mono [OF le]
      show ?thesis
        using 2 \<open>rd (2 powi k) = Fin a\<close>
        by (auto simp: Number_exponentiate2_def)
    qed
  qed
qed

lemma product_zero:
  assumes "k \<le> 1023"
  shows "Number_multiply (Fin 0) (Number_exponentiate2 k) = Fin 0"
proof -
  have "\<not> max_double < 2 powi k" using max_double_less [of k] assms by simp
  moreover have "round_nearest (2 powi k) \<le> round_nearest max_double"
    using calculation by (intro round_nearest_mono) simp
  moreover have "round_nearest max_double = max_double"
    using round_nearest_fix [of "2 ^ 53 - 1" 971] by (simp add: max_double_def)
  ultimately have "rd (2 powi k) \<noteq> PInf" by (simp add: rd_def Let_def)
  with rd_nonneg [of "2 powi k"] obtain a where "rd (2 powi k) = Fin a" by auto
  then show ?thesis using rd_int [of 0] by (simp add: Number_exponentiate2_def)
qed

lemma product_not_NaN:
  assumes "b \<noteq> 0 \<or> k \<le> 1023"
  shows "Number_multiply (Fin b) (Number_exponentiate2 k) \<noteq> NaN"
proof (cases "b = 0")
  case True
  with assms product_zero [of k] show ?thesis by simp
next
  case False
  then show ?thesis
    by (cases "rd (2 powi k)") (simp_all add: Number_exponentiate2_def)
qed

lemma computeBackoffMs_mono:
  assumes "n \<le> n'" and "0 < b \<or> (b = 0 \<and> n' \<le> 1024)"
  shows "dle (computeBackoffMs n (Fin b) (Fin m)) (computeBackoffMs n' (Fin b) (Fin m))"
proof (cases "0 < b")
  case True
  from product_mono [OF True, of "n - 1" "n' - 1"] assms(1)
  consider z z' where "Number_multiply (Fin b) (Number_exponentiate2 (n - 1)) = Fin z"
      "Number_multiply (Fin b) (Number_exponentiate2 (n' - 1)) = Fin z'" "z \<le> z'"
    | "Number_multiply (Fin b) (Number_exponentiate2 (n' - 1)) = PInf"
    by auto
  then show ?thesis
  proof cases
    case 1
    then have "min m z \<le> min m z'" by simp
    from delay_mono [OF this] show ?thesis
      unfolding computeBackoffMs_def Let_def 1(1,2) by simp
  next
    case 2
    have nn: "Number_multiply (Fin b) (Number_exponentiate2 (n - 1)) \<noteq> NaN"
      using True by (intro product_not_NaN) simp
    show ?thesis
    proof (cases "Number_multiply (Fin b) (Number_exponentiate2 (n - 1))")
      case (Fin z)
      have "min m z \<le> m" by simp
      from delay_mono [OF this] show ?thesis
        unfolding computeBackoffMs_def Let_def 2 Fin by simp
    next
      case PInf
      show ?thesis
        unfolding computeBackoffMs_def Let_def 2 PInf using delay_mono [of m m] by simp
    next
      case NInf
      have "Number_multiply NInf (literal 0.2) = NInf" by simp
      then show ?thesis
        unfolding computeBackoffMs_def Let_def 2 NInf using delay_not_NaN [of m]
        by (cases "Number_add (Fin m) (Math_floor (Number_multiply (Fin m) (literal 0.2)))")
          simp_all
    next
      case NaN
      with nn show ?thesis by simp
    qed
  qed
next
  case False
  with assms have b: "b = 0" and n': "n' - 1 \<le> 1023" and n: "n - 1 \<le> 1023" by simp_all
  show ?thesis
    unfolding computeBackoffMs_def Let_def b product_zero [OF n] product_zero [OF n']
    using delay_mono [of "min m 0" "min m 0"] by simp
qed

text \<open>
  With a maximal delay that is a whole number below \<open>2 ^ 50\<close> the delay stays within
  \<open>maxDelay * 1.2\<close>.
\<close>

lemma computeBackoffMs_upper:
  assumes "m < 2 ^ 50" and "b \<noteq> 0 \<or> n \<le> 1024"
  shows "dle (computeBackoffMs n (Fin b) (Fin (real m))) (Fin (real m * 1.2))"
proof -
  have top: "dle (Number_add (Fin (real m))
                    (Math_floor (Number_multiply (Fin (real m)) (literal 0.2))))
                 (Fin (real m * 1.2))"
  proof -
    have "real (m div 5) \<le> real m / 5"
      using of_nat_div_le_of_nat [of m 5, where 'a = real] by simp
    then show ?thesis unfolding delay_whole [OF assms(1)] by simp
  qed
  have nn: "Number_multiply (Fin b) (Number_exponentiate2 (n - 1)) \<noteq> NaN"
    using assms(2) by (intro product_not_NaN) auto
  show ?thesis
  proof (cases "Number_multiply (Fin b) (Number_exponentiate2 (n - 1))")
    case (Fin z)
    have "min (real m) z \<le> real m" by simp
    from delay_mono [OF this] top show ?thesis
      unfolding computeBackoffMs_def Let_def Fin delay_whole [OF assms(1)]
      by (cases "Number_add (Fin (min (real m) z))
                   (Math_floor (Number_multiply (Fin (min (real m) z)) (literal 0.2)))")
        simp_all
  next
    case PInf
    with top show ?thesis unfolding computeBackoffMs_def Let_def by simp
  next
    case NInf
    then show ?thesis unfolding computeBackoffMs_def Let_def by simp
  next
    case NaN
    with nn show ?thesis by simp
  qed
qed

lemma literal_below_15: "literal 14.999999999999998 = Fin (15 - 1 / 2 ^ 49)"
  by (simp add: literal_def rd_def round_nearest_def ulp_def exponent_def log2i.simps
      round_half_even_def max_double_def Let_def)

lemma literal_1000: "literal 1000 = Fin 1000"
  using rd_int [of 1000] by (simp add: literal_def)

lemma literal_1: "literal 1 = Fin 1"
  using rd_int [of 1] by (simp add: literal_def)


section \<open>Properties of the retry wrapper and the classifier\<close>

subsection \<open>Classification table\<close>

text \<open>
  C7. \<open>classifyHttpStatusError\<close> maps 401 and 403 to \<open>auth\<close>, 429 to \<open>rate_limit\<close>, every
  status from 500 up to \<open>server\<close>, every other status in 400..499 to \<open>bad_request\<close> and any
  other status to \<open>unknown\<close>; exactly \<open>rate_limit\<close> and \<open>server\<close> errors are retryable. In
  particular 429, 500, 502 and 503 give a retryable error and 400, 401, 403 and 404 a
  non-retryable one.
\<close>

theorem classifyHttpStatusError_table:
  "pe_code (classifyHttpStatusError p s d) =
     (if s = 401 \<or> s = 403 then auth
      else if s = 429 then rate_limit
      else if 500 \<le> s then server
      else if 400 \<le> s \<and> s \<le> 499 then bad_request
      else unknown)
   \<and> pe_retryable (classifyHttpStatusError p s d) = (s = 429 \<or> 500 \<le> s)
   \<and> pe_status (classifyHttpStatusError p s d) = Some s
   \<and> pe_provider (classifyHttpStatusError p s d) = p
   \<and> pe_retryable (classifyHttpStatusError p 429 d)
   \<and> pe_retryable (classifyHttpStatusError p 500 d)
   \<and> pe_retryable (classifyHttpStatusError p 502 d)
   \<and> pe_retryable (classifyHttpStatusError p 503 d)
   \<and> \<not> pe_retryable (classifyHttpStatusError p 400 d)
   \<and> \<not> pe_retryable (classifyHttpStatusError p 401 d)
   \<and> \<not> pe_retryable (classifyHttpStatusError p 403 d)
   \<and> \<not> pe_retryable (classifyHttpStatusError p 404 d)"
  by (simp add: classifyHttpStatusError_def Let_def)

subsection \<open>Backoff delay\<close>

text \<open>
  C6, as stated, fails. The jitter is \<open>Math.floor(exp * 0.2)\<close>, not 20 percent of the
  clamped term: with a base delay of 1 ms the first delay is 1 ms and not 1.2 ms. The bound
  \<open>maxDelay * 1.2\<close> fails where rounding lifts the product over a whole number: with a
  maximal delay of 14.999999999999998 ms (the double \<open>15 - 2 ^ (-49)\<close>) and a base delay of
  1000 ms the product \<open>exp * 0.2\<close> rounds to 3 and the sum to 18, which is more than
  \<open>1.2 * maxDelay\<close>. And with a negative base delay the delay decreases from attempt 1 to
  attempt 2.
\<close>

theorem computeBackoffMs_not_exact_20_percent:
  "computeBackoffMs 1 (Fin 1) (Fin 2000) = Fin 1
   \<and> computeBackoffMs 1 (Fin 1) (Fin 2000)
       \<noteq> Fin (min 2000 (1 * 2 ^ (1 - 1)) + 0.2 * min 2000 (1 * 2 ^ (1 - 1)))
   \<and> computeBackoffMs 1 (literal 1000) (literal 14.999999999999998) = Fin 18
   \<and> \<not> dle (Fin 18) (Fin ((15 - 1 / 2 ^ 49) * 1.2))
   \<and> computeBackoffMs 1 (Fin (- 10)) (Fin 2000) = Fin (- 12)
   \<and> computeBackoffMs 2 (Fin (- 10)) (Fin 2000) = Fin (- 24)"
  unfolding literal_below_15 literal_1000
  by (simp add: computeBackoffMs_def Number_exponentiate2_def literal_def
      rd_def round_nearest_def ulp_def exponent_def log2i.simps
      round_half_even_def max_double_def Let_def)

text \<open>
  C6, amended. The delay is \<open>exp + Math.floor(exp * 0.2)\<close> with
  \<open>exp = Math.min(maxDelay, baseDelay * 2 ** (n - 1))\<close>, each operation rounded to a double.
  For every attempt number \<open>n \<ge> 1\<close>:

  \<^item> for delays that are whole numbers of milliseconds, the base below \<open>2 ^ 53\<close> and the
    maximum below \<open>2 ^ 50\<close>, the delay is exactly the clamped term
    \<open>min(maxDelay, baseDelay * 2 ^ (n - 1))\<close> plus the integer part of its fifth, the 20
    percent rounded down;
  \<^item> for a finite base delay that is not negative and every finite maximal delay, the delay
    is monotonically non-decreasing in \<open>n\<close>;
  \<^item> for a maximal delay that is a whole number below \<open>2 ^ 50\<close> and every finite base delay,
    the delay is at most \<open>maxDelay * 1.2\<close>.

  A base delay of zero is excluded from attempt 1025 on, where \<open>2 ** (n - 1)\<close> is infinite
  and the product is NaN.
\<close>

theorem computeBackoffMs_floor_jitter:
  assumes "1 \<le> n"
  shows "(b < 2 ^ 53 \<and> m < 2 ^ 50 \<and> (b = 0 \<longrightarrow> n \<le> 1024) \<longrightarrow>
            computeBackoffMs n (Fin (real b)) (Fin (real m))
            = Fin (real (min m (b * 2 ^ nat (n - 1)) + min m (b * 2 ^ nat (n - 1)) div 5)))
         \<and> (n \<le> n' \<and> 0 \<le> x \<and> (x = 0 \<longrightarrow> n' \<le> 1024) \<longrightarrow>
              dle (computeBackoffMs n (Fin x) (Fin y)) (computeBackoffMs n' (Fin x) (Fin y)))
         \<and> (m < 2 ^ 50 \<and> (x = 0 \<longrightarrow> n \<le> 1024) \<longrightarrow>
              dle (computeBackoffMs n (Fin x) (Fin (real m))) (Fin (real m * 1.2)))"
proof (intro conjI impI)
  assume a: "b < 2 ^ 53 \<and> m < 2 ^ 50 \<and> (b = 0 \<longrightarrow> n \<le> 1024)"
  then have "0 < b \<or> n \<le> 1024" by auto
  with a show "computeBackoffMs n (Fin (real b)) (Fin (real m))
            = Fin (real (min m (b * 2 ^ nat (n - 1)) + min m (b * 2 ^ nat (n - 1)) div 5))"
    by (intro computeBackoffMs_whole assms) simp_all
next
  assume a: "n \<le> n' \<and> 0 \<le> x \<and> (x = 0 \<longrightarrow> n' \<le> 1024)"
  then have "0 < x \<or> (x = 0 \<and> n' \<le> 1024)" by auto
  with a show "dle (computeBackoffMs n (Fin x) (Fin y)) (computeBackoffMs n' (Fin x) (Fin y))"
    by (intro computeBackoffMs_mono) simp_all
next
  assume a: "m < 2 ^ 50 \<and> (x = 0 \<longrightarrow> n \<le> 1024)"
  then have "x \<noteq> 0 \<or> n \<le> 1024" by auto
  with a show "dle (computeBackoffMs n (Fin x) (Fin (real m))) (Fin (real m * 1.2))"
    by (intro computeBackoffMs_upper) simp_all
qed

theorem computeBackoffMs_floor_jitter_witness:
  "(1::int) \<le> 3 \<and> (200::nat) < 2 ^ 53 \<and> (2000::nat) < 2 ^ 50 \<and> (3::int) \<le> 4
   \<and> (0::real) < 200
   \<and> computeBackoffMs 3 (Fin 200) (Fin 2000) = Fin 960
   \<and> dle (computeBackoffMs 3 (Fin 200) (Fin 2000)) (computeBackoffMs 4 (Fin 200) (Fin 2000))
   \<and> dle (computeBackoffMs 3 (Fin 200) (Fin 2000)) (Fin (2000 * 1.2))"
proof -
  have h: "(1::int) \<le> 3" by simp
  note T = computeBackoffMs_floor_jitter [OF h, of 200 2000 4 200 2000]
  have a: "computeBackoffMs 3 (Fin 200) (Fin 2000) = Fin 960"
    using T [THEN conjunct1] by simp
  have b: "dle (computeBackoffMs 3 (Fin 200) (Fin 2000)) (computeBackoffMs 4 (Fin 200) (Fin 2000))"
    using T [THEN conjunct2, THEN conjunct1] by simp
  have c: "dle (computeBackoffMs 3 (Fin 200) (Fin 2000)) (Fin (2000 * 1.2))"
    using T [THEN conjunct2, THEN conjunct2] by simp
  show ?thesis using a b c by simp
qed

text \<open>The delays of the default policy: 200 ms doubled per attempt, plus a fifth.\<close>

lemma default_delays:
  "computeBackoffMs 1 (literal 200) (literal 2000) = Fin 240
   \<and> computeBackoffMs 2 (literal 200) (literal 2000) = Fin 480
   \<and> computeBackoffMs 3 (literal 200) (literal 2000) = Fin 960"
  unfolding literal_200 literal_2000
  using computeBackoffMs_whole [of 1 200 2000] computeBackoffMs_whole [of 2 200 2000]
    computeBackoffMs_whole [of 3 200 2000]
  by simp

subsection \<open>Number of invocations made by withRetry\<close>

lemma withRetry_loop_calls_le:
  "rr_calls (withRetry_loop operation p mr b m a w c s)
     \<le> c + max 1 (nat (\<lfloor>mr\<rfloor> + 2 - int a))"
proof (induction operation p mr b m a w c s rule: withRetry_loop.induct)
  case (1 operation p mr b m a w c s)
  show ?case
  proof (cases "operation w")
    case (Pair r w')
    show ?thesis
    proof (cases r)
      case (Inr v)
      with Pair show ?thesis by (subst withRetry_loop.simps) simp
    next
      case (Inl err)
      show ?thesis
      proof (cases "\<not> pe_retryable (classifyProviderError p err) \<or> real (a + 1) > mr + 1")
        case True
        with Pair Inl show ?thesis by (subst withRetry_loop.simps) (simp add: Let_def)
      next
        case False
        then have "real a \<le> mr" by simp
        then have "int a \<le> \<lfloor>mr\<rfloor>" by (simp add: le_floor_iff)
        moreover have "rr_calls (withRetry_loop operation p mr b m (a + 1) w' (c + 1)
               (s @ [computeBackoffMs (int (a + 1)) b m]))
            \<le> (c + 1) + max 1 (nat (\<lfloor>mr\<rfloor> + 2 - int (a + 1)))"
          using "1.IH" [OF refl Pair [symmetric] Inl refl] False by simp
        ultimately show ?thesis using Pair Inl False
          by (subst withRetry_loop.simps) (simp add: Let_def)
      qed
    qed
  qed
qed

text \<open>
  The wrapper invokes the operation at most \<open>maxRetries + 2\<close> times (at least once, and
  \<open>maxRetries\<close> rounded down when it is fractional).
\<close>

lemma withRetry_calls_le:
  "rr_calls (withRetry operation options w)
     \<le> max 1 (nat (\<lfloor>case ro_maxRetries options of None \<Rightarrow> 2 | Some n \<Rightarrow> n\<rfloor> + 2))"
  using withRetry_loop_calls_le [of operation "ro_provider options" _ _ _ 0 w 0 "[]"]
  by (simp add: withRetry_def Let_def)

text \<open>
  C1, at the default policy (\<open>maxRetries = 2\<close>, base delay 200 ms, maximal delay 2000 ms):
  an operation that keeps failing with a retryable error is invoked four times, one more than
  \<open>maxRetries + 1\<close>, with three sleeps in between, before the classified error is raised.
  The guard \<open>attempt > maxRetries + 1\<close> is evaluated after the attempt has been made.
\<close>

theorem withRetry_default_invokes_four_times:
  "withRetry always503
     \<lparr> ro_provider = ''OpenAI'', ro_maxRetries = None, ro_retryBaseDelayMs = None,
       ro_retryMaxDelayMs = None \<rparr> ()
   = \<lparr> rr_outcome = Inl \<lparr> pe_provider = ''OpenAI'', pe_code = server, pe_status = Some 503,
                           pe_retryable = True,
                           pe_message = ''OpenAI server error ('' @ show_int 503 @ '').'' \<rparr>,
       rr_world = (), rr_calls = 4, rr_sleeps = [Fin 240, Fin 480, Fin 960] \<rparr>"
  by (simp add: withRetry_def withRetry_loop.simps always503_def classifyHttpStatusError_def
      default_delays Let_def)

section \<open>Properties of the message normalizer\<close>

subsection \<open>safeParseArguments\<close>

text \<open>
  C4, as stated, fails on a JSON array: \<open>typeof\<close> of an array is \<open>"object"\<close> and an array is
  truthy, so the guard lets it through and the result is the array, not an empty mapping.
\<close>

theorem safeParseArguments_returns_array:
  "JSON_parse js ''[1]'' = Some (JArray [JNumber 1])
   \<and> safeParseArguments js ''[1]'' = JArray [JNumber 1]"
  by (simp add: safeParseArguments_def js_def JSON_parse_tbl_def)

text \<open>
  C4, amended. For every input string \<open>safeParseArguments\<close> returns a value (it has no
  failing branch): the empty mapping when \<open>JSON.parse\<close> throws and when the parsed value is
  \<open>null\<close> or a primitive (boolean, number, string); the parsed value itself when it is an
  object or an array. The result is never \<open>null\<close> or \<open>undefined\<close> and its \<open>typeof\<close> is
  always \<open>"object"\<close>.
\<close>

theorem safeParseArguments_object_or_array:
  "safeParseArguments bi raw =
     (case JSON_parse bi raw of
        None \<Rightarrow> JObject []
      | Some (JObject kvs) \<Rightarrow> JObject kvs
      | Some (JArray xs) \<Rightarrow> JArray xs
      | Some _ \<Rightarrow> JObject [])
   \<and> safeParseArguments bi raw \<noteq> JNull
   \<and> safeParseArguments bi raw \<noteq> JUndefined
   \<and> typeof (safeParseArguments bi raw) = ''object''"
  by (simp add: safeParseArguments_def split: option.splits jsval.splits)

subsection \<open>normalizeContent\<close>

lemma filter_Boolean_strings:
  "filter_Boolean (map (extractText bi) (map JString ss)) = filter (\<lambda>s. s \<noteq> '''') ss"
  by (induction ss) auto

lemma concat_filter_nonempty: "concat (filter (\<lambda>s. s \<noteq> []) ss) = concat ss"
  by (induction ss) auto

lemma filter_nonempty_Nil_iff: "filter (\<lambda>s. s \<noteq> []) ss = [] \<longleftrightarrow> concat ss = []"
  by (induction ss) auto

lemma normalizeContent_string: "normalizeContent bi (JString s) = Some s"
  by (simp add: normalizeContent_def)

lemma normalizeContent_array:
  "normalizeContent bi (JArray parts) =
     (if filter_Boolean (map (extractText bi) parts) \<noteq> []
      then Some (concat (filter_Boolean (map (extractText bi) parts)))
      else (case JSON_stringify bi (JArray parts) of
              Some s \<Rightarrow> Some s
            | None \<Rightarrow> Some (String_of bi (JArray parts))))"
  by (simp add: normalizeContent_def Let_def)

lemma normalizeContent_text_parts:
  "normalizeContent bi (JArray (map JString ss)) =
     (if concat ss \<noteq> '''' then Some (concat ss)
      else (case JSON_stringify bi (JArray (map JString ss)) of
              Some s \<Rightarrow> Some s
            | None \<Rightarrow> Some (String_of bi (JArray (map JString ss)))))"
  unfolding normalizeContent_array filter_Boolean_strings
  by (simp add: concat_filter_nonempty filter_nonempty_Nil_iff)

lemma normalizeContent_object:
  "normalizeContent bi (JObject kvs) =
     (case get_prop (JObject kvs) ''text'' of
        JString t \<Rightarrow> Some t
      | _ \<Rightarrow> (case get_prop (JObject kvs) ''content'' of
                JString c \<Rightarrow> Some c
              | _ \<Rightarrow> (case JSON_stringify bi (JObject kvs) of
                        Some s \<Rightarrow> Some s
                      | None \<Rightarrow> Some (String_of bi (JObject kvs)))))"
  by (simp add: normalizeContent_def split: jsval.splits option.splits)

text \<open>
  C5, as stated, fails on a sequence in which no part yields text: for the empty sequence
  \<open>extractText\<close> answers \<open>null\<close>, and \<open>normalizeContent\<close> then falls back to
  \<open>JSON.stringify\<close>, so the result is the string \<open>[]\<close>: neither \<open>null\<close> nor the (empty)
  concatenation of the parts.
\<close>

theorem normalizeContent_empty_sequence_serialized:
  "normalizeContent js (JArray []) = Some ''[]''"
  by (simp add: normalizeContent_def js_def JSON_stringify_tbl_def)

text \<open>
  C5, amended. \<open>normalizeContent\<close> returns a string unchanged. For a sequence of parts it
  takes the text of each part with \<open>extractText\<close> (recursively), drops the parts that give
  \<open>null\<close> or the empty string, and returns the concatenation of the rest with no separator
  when at least one part is left; when none is left it returns the JSON serialization of the
  sequence, never \<open>null\<close>. In particular a sequence of strings gives their concatenation when
  that is not empty. For an object with a string \<open>text\<close> field it returns that field,
  otherwise a string \<open>content\<close> field, otherwise the JSON serialization of the object. Numbers
  and booleans are returned by string coercion, \<open>null\<close> and \<open>undefined\<close> give \<open>null\<close>. Where
  \<open>JSON.stringify\<close> throws, the string coercion of the value is returned.
\<close>

theorem normalizeContent_by_shape:
  "normalizeContent bi (JString s) = Some s
   \<and> normalizeContent bi (JArray parts) =
       (if filter_Boolean (map (extractText bi) parts) \<noteq> []
        then Some (concat (filter_Boolean (map (extractText bi) parts)))
        else (case JSON_stringify bi (JArray parts) of
                Some s \<Rightarrow> Some s
              | None \<Rightarrow> Some (String_of bi (JArray parts))))
   \<and> normalizeContent bi (JArray parts) \<noteq> None
   \<and> normalizeContent bi (JArray (map JString ss)) =
       (if concat ss \<noteq> '''' then Some (concat ss)
        else (case JSON_stringify bi (JArray (map JString ss)) of
                Some s \<Rightarrow> Some s
              | None \<Rightarrow> Some (String_of bi (JArray (map JString ss)))))
   \<and> normalizeContent bi (JObject kvs) =
       (case get_prop (JObject kvs) ''text'' of
          JString t \<Rightarrow> Some t
        | _ \<Rightarrow> (case get_prop (JObject kvs) ''content'' of
                  JString c \<Rightarrow> Some c
                | _ \<Rightarrow> (case JSON_stringify bi (JObject kvs) of
                          Some s \<Rightarrow> Some s
                        | None \<Rightarrow> Some (String_of bi (JObject kvs)))))
   \<and> normalizeContent bi (JNumber x) = Some (String_of bi (JNumber x))
   \<and> normalizeContent bi (JBool b) = Some (String_of bi (JBool b))
   \<and> normalizeContent bi JNull = None
   \<and> normalizeContent bi JUndefined = None"
proof -
  have "normalizeContent bi (JArray parts) \<noteq> None"
    by (simp add: normalizeContent_array split: option.splits)
  moreover have "normalizeContent bi (JNumber x) = Some (String_of bi (JNumber x))"
    and "normalizeContent bi (JBool b) = Some (String_of bi (JBool b))"
    and "normalizeContent bi JNull = None"
    and "normalizeContent bi JUndefined = None"
    by (simp_all add: normalizeContent_def)
  ultimately show ?thesis
    using normalizeContent_string [of bi s] normalizeContent_array [of bi parts]
      normalizeContent_text_parts [of bi ss] normalizeContent_object [of bi kvs]
    by simp
qed

section \<open>Properties of the OpenAI-style stream parser\<close>

subsection \<open>One tool-call delta\<close>

lemma Map_get_set_same [simp]: "Map_get (Map_set m k v) k = Some v"
  by (induction m) (auto simp: Map_get_def)

lemma Map_get_set_other [simp]: "j \<noteq> k \<Longrightarrow> Map_get (Map_set m k v) j = Map_get m j"
  by (induction m) (auto simp: Map_get_def)

lemma applyToolCallDelta_existing:
  assumes "Map_get m (tcd_index d) = Some e"
  shows "Map_get (applyToolCallDelta m d) (tcd_index d) =
     Some \<lparr> st_id = (case tcd_id d of Some i \<Rightarrow> if i \<noteq> '''' then i else st_id e | None \<Rightarrow> st_id e),
            st_name = (case delta_name d of
                         Some n \<Rightarrow> if n \<noteq> '''' then n else st_name e
                       | None \<Rightarrow> st_name e),
            st_args = st_args e @ (case delta_arguments d of Some a \<Rightarrow> a | None \<Rightarrow> '''') \<rparr>"
  using assms by (auto simp: applyToolCallDelta_def Let_def split: option.splits)

lemma applyToolCallDelta_new:
  assumes "Map_get m (tcd_index d) = None"
  shows "Map_get (applyToolCallDelta m d) (tcd_index d) =
     Some \<lparr> st_id = (case tcd_id d of Some i \<Rightarrow> i | None \<Rightarrow> ''tool_'' @ show_int (tcd_index d)),
            st_name = (case delta_name d of Some n \<Rightarrow> n | None \<Rightarrow> ''''),
            st_args = (case delta_arguments d of Some a \<Rightarrow> a | None \<Rightarrow> '''') \<rparr>"
  using assms by (auto simp: applyToolCallDelta_def Let_def split: option.splits)

lemma applyToolCallDelta_other:
  "j \<noteq> tcd_index d \<Longrightarrow> Map_get (applyToolCallDelta m d) j = Map_get m j"
  by (simp add: applyToolCallDelta_def Let_def)

subsection \<open>Arguments only grow while the stream is read\<close>

lemma args_extend_refl: "args_extend m m"
  by (auto simp: args_extend_def)

lemma args_extend_trans: "args_extend a b \<Longrightarrow> args_extend b c \<Longrightarrow> args_extend a c"
  unfolding args_extend_def by (metis append.assoc)

lemma args_extend_apply: "args_extend m (applyToolCallDelta m d)"
  unfolding args_extend_def
proof (intro allI impI)
  fix i e
  assume a: "Map_get m i = Some e"
  show "\<exists>e' suffix. Map_get (applyToolCallDelta m d) i = Some e' \<and> st_args e' = st_args e @ suffix"
  proof (cases "i = tcd_index d")
    case True
    with a applyToolCallDelta_existing [of m d e] show ?thesis by auto
  next
    case False
    with a applyToolCallDelta_other [of i d m] show ?thesis by auto
  qed
qed

lemma args_extend_foldl: "args_extend m (foldl applyToolCallDelta m ds)"
  by (induction ds arbitrary: m)
    (auto intro: args_extend_refl args_extend_trans args_extend_apply)

lemma args_extend_processEvent:
  "args_extend (ss_toolCallState st) (ss_toolCallState (processEvent bi st ev))"
  by (auto simp: processEvent_def Let_def args_extend_refl args_extend_foldl split: option.splits)

lemma args_extend_processLine:
  "args_extend (ss_toolCallState st) (ss_toolCallState (processLine bi pc st raw))"
  by (auto simp: processLine_def Let_def args_extend_refl args_extend_processEvent
      split: option.splits)

lemma args_extend_drain:
  "args_extend (ss_toolCallState st) (ss_toolCallState (drain_lines bi pc st))"
proof (induction bi pc st rule: drain_lines.induct)
  case (1 bi pc st)
  show ?case
  proof (cases "newline \<in> set (ss_buffer st)")
    case True
    let ?raw = "takeWhile (\<lambda>c. c \<noteq> newline) (ss_buffer st)"
    let ?st1 = "st\<lparr> ss_buffer := drop (length ?raw + 1) (ss_buffer st) \<rparr>"
    have "args_extend (ss_toolCallState ?st1) (ss_toolCallState (processLine bi pc ?st1 ?raw))"
      by (rule args_extend_processLine)
    moreover have "args_extend (ss_toolCallState (processLine bi pc ?st1 ?raw))
        (ss_toolCallState (drain_lines bi pc (processLine bi pc ?st1 ?raw)))"
      using "1.IH" [OF True refl refl] .
    ultimately have "args_extend (ss_toolCallState st)
        (ss_toolCallState (drain_lines bi pc (processLine bi pc ?st1 ?raw)))"
      using args_extend_trans by fastforce
    then show ?thesis using True by (subst drain_lines.simps) (simp add: Let_def)
  next
    case False
    then show ?thesis by (subst drain_lines.simps) (simp add: args_extend_refl)
  qed
qed

lemma args_extend_feed:
  "args_extend (ss_toolCallState st) (ss_toolCallState (feed_chunk bi pc st chunk))"
  using args_extend_drain [of "st\<lparr>ss_buffer := ss_buffer st @ chunk\<rparr>" bi pc]
  by (simp add: feed_chunk_def)

lemma args_extend_body:
  "args_extend (ss_toolCallState st) (ss_toolCallState (foldl (feed_chunk bi pc) st body))"
  by (induction body arbitrary: st)
    (auto intro: args_extend_refl args_extend_trans args_extend_feed)

subsection \<open>No tool call is emitted before the stream has ended\<close>

lemma text_only_processEvent:
  "text_only (ss_yielded st) \<Longrightarrow> text_only (ss_yielded (processEvent bi st ev))"
  by (auto simp: processEvent_def Let_def text_only_def split: option.splits)

lemma text_only_processLine:
  "text_only (ss_yielded st) \<Longrightarrow> text_only (ss_yielded (processLine bi pc st raw))"
  by (auto simp: processLine_def Let_def text_only_processEvent split: option.splits)

lemma text_only_drain:
  "text_only (ss_yielded st) \<Longrightarrow> text_only (ss_yielded (drain_lines bi pc st))"
proof (induction bi pc st rule: drain_lines.induct)
  case (1 bi pc st)
  show ?case
  proof (cases "newline \<in> set (ss_buffer st)")
    case True
    let ?raw = "takeWhile (\<lambda>c. c \<noteq> newline) (ss_buffer st)"
    let ?st1 = "st\<lparr> ss_buffer := drop (length ?raw + 1) (ss_buffer st) \<rparr>"
    have "text_only (ss_yielded (processLine bi pc ?st1 ?raw))"
      using "1.prems" by (intro text_only_processLine) simp
    then have "text_only (ss_yielded (drain_lines bi pc (processLine bi pc ?st1 ?raw)))"
      using "1.IH" [OF True refl refl] by simp
    then show ?thesis using True by (subst drain_lines.simps) (simp add: Let_def)
  next
    case False
    then show ?thesis using "1.prems" by (subst drain_lines.simps) simp
  qed
qed

lemma text_only_feed:
  "text_only (ss_yielded st) \<Longrightarrow> text_only (ss_yielded (feed_chunk bi pc st chunk))"
  unfolding feed_chunk_def by (rule text_only_drain) simp

lemma text_only_body:
  "text_only (ss_yielded st) \<Longrightarrow> text_only (ss_yielded (foldl (feed_chunk bi pc) st body))"
  by (induction body arbitrary: st) (auto intro: text_only_feed)

lemma OpenAIProvider_stream_shape:
  "butlast (OpenAIProvider_stream bi pc body)
     = ss_yielded (foldl (feed_chunk bi pc) initial_stream_state body)
   \<and> last (OpenAIProvider_stream bi pc body)
     = final_fragment bi (foldl (feed_chunk bi pc) initial_stream_state body)"
  by (simp add: OpenAIProvider_stream_def Let_def)

lemma OpenAIProvider_stream_text_only:
  "text_only (butlast (OpenAIProvider_stream bi pc body))"
proof -
  have "text_only (ss_yielded initial_stream_state)"
    by (simp add: text_only_def initial_stream_state_def)
  then show ?thesis
    using OpenAIProvider_stream_shape [of bi pc body] by (simp add: text_only_body)
qed

subsection \<open>Framing of one event\<close>

lemma trim_unchanged:
  assumes "s \<noteq> []" and "\<not> is_space (hd s)" and "\<not> is_space (last s)"
  shows "trim s = s"
proof -
  have "dropWhile is_space s = s" using assms by (cases s) auto
  moreover have "dropWhile is_space (rev s) = rev s"
    using assms by (cases "rev s") (auto simp: hd_rev)
  ultimately show ?thesis by (simp add: trim_def)
qed

lemma trim_space_payload:
  assumes "data_payload p"
  shows "trim (CHR '' '' # p) = p"
proof -
  have p: "p \<noteq> []" "\<not> is_space (hd p)" "\<not> is_space (last p)"
    using assms by (auto simp: data_payload_def)
  have "dropWhile is_space (CHR '' '' # p) = p"
    using p by (cases p) (auto simp: is_space_def)
  moreover have "dropWhile is_space (rev p) = rev p"
    using p by (cases "rev p") (auto simp: hd_rev)
  ultimately show ?thesis by (simp add: trim_def)
qed

lemma trim_data_payload: "data_payload p \<Longrightarrow> trim (''data: '' @ p) = ''data: '' @ p"
  by (rule trim_unchanged) (auto simp: data_payload_def is_space_def)

lemma processLine_data:
  assumes "data_payload p"
  shows "processLine bi pc st (''data: '' @ p)
         = (case pc p of None \<Rightarrow> st | Some ev \<Rightarrow> processEvent bi st ev)"
proof -
  have "trim (''data: '' @ p) = ''data: '' @ p" using assms by (rule trim_data_payload)
  moreover have "trim (drop 5 (''data: '' @ p)) = p" using trim_space_payload [OF assms] by simp
  moreover have "p \<noteq> [] \<and> p \<noteq> ''[DONE]''" using assms by (simp add: data_payload_def)
  ultimately show ?thesis by (simp add: processLine_def Let_def)
qed

lemma processLine_blank: "processLine bi pc st [] = st"
  by (simp add: processLine_def trim_def)

lemma drain_no_newline: "newline \<notin> set (ss_buffer st) \<Longrightarrow> drain_lines bi pc st = st"
  by (subst drain_lines.simps) simp

lemma drain_step:
  assumes "newline \<notin> set l"
  shows "drain_lines bi pc (st\<lparr>ss_buffer := l @ newline # rest\<rparr>)
         = drain_lines bi pc (processLine bi pc (st\<lparr>ss_buffer := rest\<rparr>) l)"
proof -
  have tw: "takeWhile (\<lambda>c. c \<noteq> newline) (l @ newline # rest) = l"
    using assms by (induction l) auto
  show ?thesis
    by (subst drain_lines.simps) (simp add: tw Let_def)
qed

lemma processEvent_buffer_update:
  "processEvent bi (st\<lparr>ss_buffer := b\<rparr>) ev = (processEvent bi st ev)\<lparr>ss_buffer := b\<rparr>"
  by (rule stream_state.equality)
    (simp_all add: processEvent_def Let_def cong: option.case_cong if_cong)

lemma feed_sse_line:
  assumes "data_payload p" and "ss_buffer st = []"
  shows "feed_chunk bi pc st (sse_line p)
         = (case pc p of None \<Rightarrow> st | Some ev \<Rightarrow> processEvent bi st ev)"
proof -
  have nl: "newline \<notin> set (''data: '' @ p)"
    using assms(1) by (auto simp: data_payload_def newline_def)
  let ?st1 = "processLine bi pc (st\<lparr>ss_buffer := [newline]\<rparr>) (''data: '' @ p)"
  have "feed_chunk bi pc st (sse_line p)
        = drain_lines bi pc (st\<lparr>ss_buffer := (''data: '' @ p) @ newline # [newline]\<rparr>)"
    by (simp add: feed_chunk_def sse_line_def assms(2))
  also have "\<dots> = drain_lines bi pc ?st1"
    using nl by (rule drain_step)
  also have "\<dots> = drain_lines bi pc (?st1\<lparr>ss_buffer := [] @ newline # []\<rparr>)"
  proof -
    have "?st1 = ?st1\<lparr>ss_buffer := [] @ newline # []\<rparr>"
      by (rule stream_state.equality) simp_all
    then show ?thesis by (rule arg_cong)
  qed
  also have "\<dots> = drain_lines bi pc (processLine bi pc (?st1\<lparr>ss_buffer := []\<rparr>) [])"
    by (rule drain_step) simp
  also have "\<dots> = ?st1\<lparr>ss_buffer := []\<rparr>"
    by (simp add: processLine_blank drain_no_newline)
  also have "\<dots> = (case pc p of None \<Rightarrow> st | Some ev \<Rightarrow> processEvent bi st ev)"
  proof -
    have st0: "st\<lparr>ss_buffer := []\<rparr> = st"
      using assms(2) by (intro stream_state.equality) simp_all
    show ?thesis
    proof (cases "pc p")
      case None
      show ?thesis
        unfolding processLine_data [OF assms(1)] using None st0 by simp
    next
      case (Some ev)
      have "(processEvent bi st ev)\<lparr>ss_buffer := []\<rparr> = processEvent bi st ev"
        using assms(2) by (intro stream_state.equality) simp_all
      then show ?thesis
        unfolding processLine_data [OF assms(1)]
        using Some by (simp add: processEvent_buffer_update)
    qed
  qed
  finally show ?thesis .
qed

subsection \<open>An id, then a name, then two argument fragments\<close>

lemma four_events_assembled:
  "final_fragment bi (foldl (processEvent bi) initial_stream_state
      [tool_chunk \<lparr> tcd_index = i, tcd_id = Some cid, tcd_function = None \<rparr>,
       tool_chunk \<lparr> tcd_index = i, tcd_id = None,
         tcd_function = Some \<lparr> fd_name = Some nm, fd_arguments = None \<rparr> \<rparr>,
       tool_chunk \<lparr> tcd_index = i, tcd_id = None,
         tcd_function = Some \<lparr> fd_name = None, fd_arguments = Some f1 \<rparr> \<rparr>,
       tool_chunk \<lparr> tcd_index = i, tcd_id = None,
         tcd_function = Some \<lparr> fd_name = None, fd_arguments = Some f2 \<rparr> \<rparr>])
   = \<lparr> lr_content = None,
       lr_toolCalls =
         Some [\<lparr> tc_id = cid, tc_name = nm, tc_arguments = safeParseArguments bi (f1 @ f2) \<rparr>],
       lr_finishReason = ''tool_calls'' \<rparr>"
  by (simp add: processEvent_def tool_chunk_def initial_stream_state_def final_fragment_def
      Let_def applyToolCallDelta_def Map_get_def Map_values_def delta_name_def
      delta_arguments_def)

lemma four_lines_assembled:
  assumes "data_payload p1" "data_payload p2" "data_payload p3" "data_payload p4"
    and "pc p1 = Some (tool_chunk \<lparr> tcd_index = i, tcd_id = Some cid, tcd_function = None \<rparr>)"
    and "pc p2 = Some (tool_chunk \<lparr> tcd_index = i, tcd_id = None,
                 tcd_function = Some \<lparr> fd_name = Some nm, fd_arguments = None \<rparr> \<rparr>)"
    and "pc p3 = Some (tool_chunk \<lparr> tcd_index = i, tcd_id = None,
                 tcd_function = Some \<lparr> fd_name = None, fd_arguments = Some f1 \<rparr> \<rparr>)"
    and "pc p4 = Some (tool_chunk \<lparr> tcd_index = i, tcd_id = None,
                 tcd_function = Some \<lparr> fd_name = None, fd_arguments = Some f2 \<rparr> \<rparr>)"
  shows "OpenAIProvider_stream bi pc [sse_line p1, sse_line p2, sse_line p3, sse_line p4]
    = [\<lparr> lr_content = None,
         lr_toolCalls =
           Some [\<lparr> tc_id = cid, tc_name = nm,
                   tc_arguments = safeParseArguments bi (f1 @ f2) \<rparr>],
         lr_finishReason = ''tool_calls'' \<rparr>]"
proof -
  let ?evs = "[tool_chunk \<lparr> tcd_index = i, tcd_id = Some cid, tcd_function = None \<rparr>,
       tool_chunk \<lparr> tcd_index = i, tcd_id = None,
         tcd_function = Some \<lparr> fd_name = Some nm, fd_arguments = None \<rparr> \<rparr>,
       tool_chunk \<lparr> tcd_index = i, tcd_id = None,
         tcd_function = Some \<lparr> fd_name = None, fd_arguments = Some f1 \<rparr> \<rparr>,
       tool_chunk \<lparr> tcd_index = i, tcd_id = None,
         tcd_function = Some \<lparr> fd_name = None, fd_arguments = Some f2 \<rparr> \<rparr>]"
  have b0: "ss_buffer initial_stream_state = []" by (simp add: initial_stream_state_def)
  have "foldl (feed_chunk bi pc) initial_stream_state
          [sse_line p1, sse_line p2, sse_line p3, sse_line p4]
        = foldl (processEvent bi) initial_stream_state ?evs"
    using assms b0 by (simp add: feed_sse_line)
  moreover have "ss_yielded (foldl (processEvent bi) initial_stream_state ?evs) = []"
    by (simp add: processEvent_def tool_chunk_def initial_stream_state_def Let_def)
  ultimately show ?thesis
    using four_events_assembled [of bi i cid nm f1 f2]
    by (simp add: OpenAIProvider_stream_def Let_def)
qed

subsection \<open>Assembly of streamed tool calls\<close>

text \<open>
  C3. In the OpenAI-style stream parser the tool-call deltas that share an index are merged
  additively across the events of a stream.

  \<^item> One delta for an index that is already stored: a non-empty \<open>id\<close> or \<open>name\<close> overwrites
    the stored one, an absent or empty one leaves it, and the argument fragment is appended
    to the stored argument text. A delta for a new index creates the entry from its own
    fields. Entries of other indices are not touched.
  \<^item> Over any body, from any state of the parser: every stored entry is still there when the
    body has been read, and its argument text then starts with the text it had; nothing is
    ever replaced.
  \<^item> Every fragment yielded before the last one carries no tool calls; the last fragment is
    computed from the final accumulator, where \<open>safeParseArguments\<close> is applied once to the
    whole argument text of each entry.
  \<^item> For four events that deliver, for one index, an id, then a name, then two argument
    fragments, the stream yields one fragment with one tool call: that id, that name, and
    \<open>safeParseArguments\<close> of the concatenation of the two fragments.
\<close>

theorem openai_stream_tool_call_assembly:
  "(Map_get m (tcd_index d) = Some e \<longrightarrow>
      Map_get (applyToolCallDelta m d) (tcd_index d) =
        Some \<lparr> st_id = (case tcd_id d of
                          Some i \<Rightarrow> if i \<noteq> '''' then i else st_id e
                        | None \<Rightarrow> st_id e),
               st_name = (case delta_name d of
                            Some n \<Rightarrow> if n \<noteq> '''' then n else st_name e
                          | None \<Rightarrow> st_name e),
               st_args = st_args e @ (case delta_arguments d of Some a \<Rightarrow> a | None \<Rightarrow> '''') \<rparr>)
   \<and> (Map_get m' (tcd_index d') = None \<longrightarrow>
      Map_get (applyToolCallDelta m' d') (tcd_index d') =
        Some \<lparr> st_id = (case tcd_id d' of
                          Some i \<Rightarrow> i
                        | None \<Rightarrow> ''tool_'' @ show_int (tcd_index d')),
               st_name = (case delta_name d' of Some n \<Rightarrow> n | None \<Rightarrow> ''''),
               st_args = (case delta_arguments d' of Some a \<Rightarrow> a | None \<Rightarrow> '''') \<rparr>)
   \<and> (j \<noteq> tcd_index d \<longrightarrow> Map_get (applyToolCallDelta m d) j = Map_get m j)
   \<and> args_extend (ss_toolCallState st) (ss_toolCallState (foldl (feed_chunk bi pc) st body))
   \<and> text_only (butlast (OpenAIProvider_stream bi pc body))
   \<and> last (OpenAIProvider_stream bi pc body)
       = final_fragment bi (foldl (feed_chunk bi pc) initial_stream_state body)
   \<and> (data_payload p1 \<and> data_payload p2 \<and> data_payload p3 \<and> data_payload p4
       \<and> pc p1 = Some (tool_chunk \<lparr> tcd_index = i, tcd_id = Some cid, tcd_function = None \<rparr>)
       \<and> pc p2 = Some (tool_chunk \<lparr> tcd_index = i, tcd_id = None,
                    tcd_function = Some \<lparr> fd_name = Some nm, fd_arguments = None \<rparr> \<rparr>)
       \<and> pc p3 = Some (tool_chunk \<lparr> tcd_index = i, tcd_id = None,
                    tcd_function = Some \<lparr> fd_name = None, fd_arguments = Some f1 \<rparr> \<rparr>)
       \<and> pc p4 = Some (tool_chunk \<lparr> tcd_index = i, tcd_id = None,
                    tcd_function = Some \<lparr> fd_name = None, fd_arguments = Some f2 \<rparr> \<rparr>)
       \<longrightarrow> OpenAIProvider_stream bi pc [sse_line p1, sse_line p2, sse_line p3, sse_line p4]
           = [\<lparr> lr_content = None,
                lr_toolCalls =
                  Some [\<lparr> tc_id = cid, tc_name = nm,
                          tc_arguments = safeParseArguments bi (f1 @ f2) \<rparr>],
                lr_finishReason = ''tool_calls'' \<rparr>])"
  using applyToolCallDelta_existing [of m d e] applyToolCallDelta_new [of m' d']
    applyToolCallDelta_other [of j d m] args_extend_body [of st bi pc body]
    OpenAIProvider_stream_text_only [of bi pc body] OpenAIProvider_stream_shape [of bi pc body]
    four_lines_assembled [of p1 p2 p3 p4 pc i cid nm f1 f2 bi]
  by blast

lemma data_payload_examples:
  "data_payload payload_id \<and> data_payload payload_name \<and> data_payload payload_args1
   \<and> data_payload payload_args2"
  by (simp add: data_payload_def payload_id_def payload_name_def payload_args1_def
      payload_args2_def esc_quote_def is_space_def newline_def)

lemma parse_chunk_tbl_examples:
  "parse_chunk_tbl payload_id
     = Some (tool_chunk \<lparr> tcd_index = 0, tcd_id = Some ''call_1'', tcd_function = None \<rparr>)"
  "parse_chunk_tbl payload_name
     = Some (tool_chunk \<lparr> tcd_index = 0, tcd_id = None,
               tcd_function = Some \<lparr> fd_name = Some ''read_file'', fd_arguments = None \<rparr> \<rparr>)"
  \<open>parse_chunk_tbl payload_args1
     = Some (tool_chunk \<lparr> tcd_index = 0, tcd_id = None,
               tcd_function = Some \<lparr> fd_name = None, fd_arguments = Some ''{"path":"/tmp'' \<rparr> \<rparr>)\<close>
  \<open>parse_chunk_tbl payload_args2
     = Some (tool_chunk \<lparr> tcd_index = 0, tcd_id = None,
               tcd_function = Some \<lparr> fd_name = None, fd_arguments = Some ''/a.txt"}'' \<rparr> \<rparr>)\<close>
  by (simp_all add: parse_chunk_tbl_def payload_id_def payload_name_def payload_args1_def
      payload_args2_def esc_quote_def)

theorem openai_stream_tool_call_assembly_witness:
  \<open>Map_get [(0::int, \<lparr> st_id = ''tool_0'', st_name = '''', st_args = ''{"path":"/tmp'' \<rparr>)] 0
     = Some \<lparr> st_id = ''tool_0'', st_name = '''', st_args = ''{"path":"/tmp'' \<rparr>
   \<and> Map_get
         (applyToolCallDelta [(0, \<lparr> st_id = ''tool_0'', st_name = '''', st_args = ''{"path":"/tmp'' \<rparr>)]
            \<lparr> tcd_index = 0, tcd_id = Some ''call_1'',
              tcd_function = Some \<lparr> fd_name = Some ''read_file'', fd_arguments = Some ''/a.txt"}'' \<rparr> \<rparr>) 0
     = Some \<lparr> st_id = ''call_1'', st_name = ''read_file'', st_args = ''{"path":"/tmp/a.txt"}'' \<rparr>
   \<and> Map_get ([] :: (int \<times> ToolCallState) list) 3 = None
   \<and> Map_get (applyToolCallDelta [] \<lparr> tcd_index = 3, tcd_id = None, tcd_function = None \<rparr>) 3
     = Some \<lparr> st_id = ''tool_'' @ show_int 3, st_name = '''', st_args = '''' \<rparr>
   \<and> (1::int) \<noteq> 0
   \<and> Map_get
         (applyToolCallDelta [(0, \<lparr> st_id = ''tool_0'', st_name = '''', st_args = ''{"path":"/tmp'' \<rparr>)]
            \<lparr> tcd_index = 0, tcd_id = Some ''call_1'',
              tcd_function = Some \<lparr> fd_name = Some ''read_file'', fd_arguments = Some ''/a.txt"}'' \<rparr> \<rparr>) 1
     = None
   \<and> data_payload payload_id \<and> data_payload payload_name \<and> data_payload payload_args1
   \<and> data_payload payload_args2
   \<and> OpenAIProvider_stream js parse_chunk_tbl
         [sse_line payload_id, sse_line payload_name, sse_line payload_args1,
          sse_line payload_args2]
     = [\<lparr> lr_content = None,
          lr_toolCalls =
            Some [\<lparr> tc_id = ''call_1'', tc_name = ''read_file'',
                    tc_arguments = JObject [(''path'', JString ''/tmp/a.txt'')] \<rparr>],
          lr_finishReason = ''tool_calls'' \<rparr>]\<close>
proof -
  define e0 where \<open>e0 = \<lparr> st_id = ''tool_0'', st_name = '''', st_args = ''{"path":"/tmp'' \<rparr>\<close>
  define d0 where
    \<open>d0 = \<lparr> tcd_index = 0, tcd_id = Some ''call_1'',
             tcd_function = Some \<lparr> fd_name = Some ''read_file'', fd_arguments = Some ''/a.txt"}'' \<rparr> \<rparr>\<close>
  define d3 where "d3 = \<lparr> tcd_index = 3, tcd_id = None, tcd_function = None \<rparr>"
  note T = openai_stream_tool_call_assembly
      [of "[(0, e0)]" d0 e0 "[]" d3 1 initial_stream_state js parse_chunk_tbl "[]"
          payload_id payload_name payload_args1 payload_args2
          0 "''call_1''" "''read_file''" \<open>''{"path":"/tmp''\<close> \<open>''/a.txt"}''\<close>]
  have h1: "Map_get [(0::int, e0)] (tcd_index d0) = Some e0"
    by (simp add: Map_get_def d0_def)
  have c1: \<open>Map_get (applyToolCallDelta [(0, e0)] d0) 0
     = Some \<lparr> st_id = ''call_1'', st_name = ''read_file'', st_args = ''{"path":"/tmp/a.txt"}'' \<rparr>\<close>
    using T [THEN conjunct1] h1
    by (simp add: d0_def e0_def delta_name_def delta_arguments_def)
  have h2: "Map_get ([] :: (int \<times> ToolCallState) list) (tcd_index d3) = None"
    by (simp add: Map_get_def)
  have c2: "Map_get (applyToolCallDelta [] d3) 3
     = Some \<lparr> st_id = ''tool_'' @ show_int 3, st_name = '''', st_args = '''' \<rparr>"
    using T [THEN conjunct2, THEN conjunct1] h2
    by (simp add: d3_def delta_name_def delta_arguments_def)
  have c3: "Map_get (applyToolCallDelta [(0, e0)] d0) 1 = None"
    using T [THEN conjunct2, THEN conjunct2, THEN conjunct1]
    by (simp add: d0_def Map_get_def)
  have parsed: \<open>safeParseArguments js (''{"path":"/tmp'' @ ''/a.txt"}'')
                = JObject [(''path'', JString ''/tmp/a.txt'')]\<close>
    by (simp add: safeParseArguments_def js_def JSON_parse_tbl_def)
  have c7: "OpenAIProvider_stream js parse_chunk_tbl
         [sse_line payload_id, sse_line payload_name, sse_line payload_args1,
          sse_line payload_args2]
     = [\<lparr> lr_content = None,
          lr_toolCalls =
            Some [\<lparr> tc_id = ''call_1'', tc_name = ''read_file'',
                    tc_arguments = JObject [(''path'', JString ''/tmp/a.txt'')] \<rparr>],
          lr_finishReason = ''tool_calls'' \<rparr>]"
    using T [THEN conjunct2, THEN conjunct2, THEN conjunct2, THEN conjunct2, THEN conjunct2,
             THEN conjunct2]
      data_payload_examples parse_chunk_tbl_examples
    unfolding parsed by blast
  have g: "Map_get [(0::int, e0)] 0 = Some e0" "Map_get ([] :: (int \<times> ToolCallState) list) 3 = None"
    by (simp_all add: Map_get_def)
  show ?thesis
    using c1 c2 c3 c7 g data_payload_examples
    unfolding e0_def d0_def d3_def by simp
qed

section \<open>Properties of the Anthropic message mapping\<close>

subsection \<open>The loop, message by message\<close>

lemma system_texts_Cons:
  "system_texts bi (msg # rest) =
     (if message_role bi msg = ''system'' \<and> content_or_empty bi msg \<noteq> ''''
      then content_or_empty bi msg # system_texts bi rest else system_texts bi rest)"
  by (simp add: system_texts_def)

lemma mapMessages_loop_system:
  "message_role bi msg = ''system'' \<Longrightarrow>
     mapMessages_loop bi (msg # rest) sp out =
       mapMessages_loop bi rest
         (if content_or_empty bi msg \<noteq> '''' then sp @ [content_or_empty bi msg] else sp) out"
  by (simp add: content_or_empty_def Let_def del: get_prop.simps split: option.splits)

lemma mapMessages_loop_tool:
  "message_role bi msg = ''tool'' \<Longrightarrow>
     mapMessages_loop bi (msg # rest) sp out =
       mapMessages_loop bi rest sp (out @ [tool_result_message bi msg])"
  by (simp add: tool_result_message_def tool_use_id_of_def Let_def del: get_prop.simps)

lemma mapMessages_loop_assistant:
  "message_role bi msg = ''assistant'' \<Longrightarrow>
     mapMessages_loop bi (msg # rest) sp out =
       (case mapOpenAIToolCalls bi (get_prop (JObject msg) ''tool_calls'') of
          Inl e \<Rightarrow> Inl e
        | Inr toolCalls \<Rightarrow>
            mapMessages_loop bi rest sp (out @ [assistant_message bi msg toolCalls]))"
  by (simp add: assistant_message_def Let_def del: get_prop.simps split: sum.splits)

lemma mapMessages_loop_user:
  "message_role bi msg = ''user'' \<Longrightarrow>
     mapMessages_loop bi (msg # rest) sp out =
       mapMessages_loop bi rest sp
         (out @ [\<lparr> am_role = ''user'', am_content = ContentText (content_or_empty bi msg) \<rparr>])"
  by (simp add: Let_def del: get_prop.simps)

lemma mapMessages_loop_other:
  "message_role bi msg \<noteq> ''system'' \<Longrightarrow> message_role bi msg \<noteq> ''tool'' \<Longrightarrow>
   message_role bi msg \<noteq> ''assistant'' \<Longrightarrow> message_role bi msg \<noteq> ''user'' \<Longrightarrow>
     mapMessages_loop bi (msg # rest) sp out = mapMessages_loop bi rest sp out"
  by (simp add: Let_def del: get_prop.simps)

lemma mapMessages_loop_spec:
  "mapMessages_loop bi messages systemParts out = Inr (sp, out') \<Longrightarrow>
     sp = systemParts @ system_texts bi messages
     \<and> out' = out @ concat (map (vendor_messages_of bi) messages)"
proof (induction messages arbitrary: systemParts out)
  case Nil
  then show ?case by (simp add: system_texts_def)
next
  case (Cons msg rest)
  consider (system) "message_role bi msg = ''system''"
    | (tool) "message_role bi msg = ''tool''"
    | (assistant) "message_role bi msg = ''assistant''"
    | (user) "message_role bi msg = ''user''"
    | (other) "message_role bi msg \<noteq> ''system''" "message_role bi msg \<noteq> ''tool''"
        "message_role bi msg \<noteq> ''assistant''" "message_role bi msg \<noteq> ''user''"
    by blast
  then show ?case
  proof cases
    case system
    have v: "vendor_messages_of bi msg = []"
      using system by (simp add: vendor_messages_of_def)
    from Cons.prems have
      "mapMessages_loop bi rest
         (if content_or_empty bi msg \<noteq> '''' then systemParts @ [content_or_empty bi msg]
          else systemParts) out = Inr (sp, out')"
      by (simp only: mapMessages_loop_system [OF system])
    from Cons.IH [OF this] show ?thesis
      using system v by (simp add: system_texts_Cons)
  next
    case tool
    have v: "vendor_messages_of bi msg = [tool_result_message bi msg]"
      using tool by (simp add: vendor_messages_of_def)
    from Cons.prems have
      "mapMessages_loop bi rest systemParts (out @ [tool_result_message bi msg]) = Inr (sp, out')"
      by (simp only: mapMessages_loop_tool [OF tool])
    from Cons.IH [OF this] show ?thesis
      using tool v by (simp add: system_texts_Cons)
  next
    case assistant
    from Cons.prems obtain toolCalls where
      tc: "mapOpenAIToolCalls bi (get_prop (JObject msg) ''tool_calls'') = Inr toolCalls"
      and run: "mapMessages_loop bi rest systemParts (out @ [assistant_message bi msg toolCalls])
                = Inr (sp, out')"
      by (simp only: mapMessages_loop_assistant [OF assistant]) (auto split: sum.splits)
    have v: "vendor_messages_of bi msg = [assistant_message bi msg toolCalls]"
      using assistant tc by (simp add: vendor_messages_of_def del: get_prop.simps)
    from Cons.IH [OF run] show ?thesis
      using assistant v by (simp add: system_texts_Cons)
  next
    case user
    have v: "vendor_messages_of bi msg
             = [\<lparr> am_role = ''user'', am_content = ContentText (content_or_empty bi msg) \<rparr>]"
      using user by (simp add: vendor_messages_of_def)
    from Cons.prems have
      "mapMessages_loop bi rest systemParts
         (out @ [\<lparr> am_role = ''user'', am_content = ContentText (content_or_empty bi msg) \<rparr>])
       = Inr (sp, out')"
      by (simp only: mapMessages_loop_user [OF user])
    from Cons.IH [OF this] show ?thesis
      using user v by (simp add: system_texts_Cons)
  next
    case other
    have v: "vendor_messages_of bi msg = []"
      using other by (simp add: vendor_messages_of_def)
    from Cons.prems have "mapMessages_loop bi rest systemParts out = Inr (sp, out')"
      by (simp only: mapMessages_loop_other [OF other])
    from Cons.IH [OF this] show ?thesis
      using other v by (simp add: system_texts_Cons)
  qed
qed

lemma vendor_messages_of_roles:
  "m \<in> set (vendor_messages_of bi msg) \<Longrightarrow> am_role m = ''user'' \<or> am_role m = ''assistant''"
  by (auto simp: vendor_messages_of_def tool_result_message_def assistant_message_def
      split: if_splits sum.splits)

lemma mapMessages_spec:
  assumes "mapMessages bi messages = Inr r"
  shows "mm_system r = (if system_texts bi messages = [] then None
                        else Some (join [newline, newline] (system_texts bi messages)))"
    and "mm_messages r = concat (map (vendor_messages_of bi) messages)"
proof -
  from assms obtain sp out where
    loop: "mapMessages_loop bi messages [] [] = Inr (sp, out)"
    and r: "r = \<lparr> mm_system = (if length sp > 0 then Some (join [newline, newline] sp) else None),
                  mm_messages = out \<rparr>"
    by (auto simp: mapMessages_def split: sum.splits)
  from mapMessages_loop_spec [OF loop] have "sp = system_texts bi messages"
    and "out = concat (map (vendor_messages_of bi) messages)" by simp_all
  then show "mm_system r = (if system_texts bi messages = [] then None
                        else Some (join [newline, newline] (system_texts bi messages)))"
    and "mm_messages r = concat (map (vendor_messages_of bi) messages)"
    using r by simp_all
qed

subsection \<open>Roles, system field and tool results\<close>

text \<open>
  C9, as stated, fails for a tool-role message that has no \<open>tool_call_id\<close>: the id of the
  \<open>tool_result\<close> block is then taken from the message's \<open>name\<close> (and is the literal
  \<open>tool_result\<close> when that is missing too).
\<close>

theorem mapMessages_tool_result_id_from_name:
  "mapMessages js
     [[(''role'', JString ''tool''), (''name'', JString ''read_file''),
       (''content'', JString ''contents'')]]
   = Inr \<lparr> mm_system = None,
           mm_messages =
             [\<lparr> am_role = ''user'',
                am_content = ContentBlocks [ToolResultBlock ''read_file'' ''contents''] \<rparr>] \<rparr>"
  by (simp add: mapMessages_def message_role_def content_or_empty_def normalizeContent_def
      Let_def)

text \<open>
  C9, amended. When \<open>mapMessages\<close> returns, every vendor message it emits has the role
  \<open>user\<close> or \<open>assistant\<close>. The system-role input messages emit no vendor message; their
  non-empty normalized contents are joined, in order and separated by an empty line, into the
  one top-level system field, which is absent when there is none. The vendor messages are
  the translations of the input messages in order. A tool-role input message is translated
  to one user-role message whose content is one \<open>tool_result\<close> block that carries the
  normalized content and whose \<open>tool_use_id\<close> is the message's \<open>tool_call_id\<close> when that is
  a non-empty string, otherwise the message's \<open>name\<close>, otherwise the literal \<open>tool_result\<close>.
\<close>

theorem mapMessages_roles_system_tool_results:
  assumes "mapMessages bi messages = Inr r"
  shows "(\<forall>m \<in> set (mm_messages r). am_role m = ''user'' \<or> am_role m = ''assistant'')
     \<and> mm_system r = (if system_texts bi messages = [] then None
                      else Some (join [newline, newline] (system_texts bi messages)))
     \<and> mm_messages r = concat (map (vendor_messages_of bi) messages)
     \<and> (message_role bi msg = ''system'' \<longrightarrow> vendor_messages_of bi msg = [])
     \<and> (message_role bi msg = ''tool'' \<longrightarrow>
          vendor_messages_of bi msg =
            [\<lparr> am_role = ''user'',
               am_content =
                 ContentBlocks
                   [ToolResultBlock (tool_use_id_of bi msg) (content_or_empty bi msg)] \<rparr>])
     \<and> (get_prop (JObject msg) ''tool_call_id'' = JString s \<and> s \<noteq> '''' \<longrightarrow>
          tool_use_id_of bi msg = s)
     \<and> (get_prop (JObject msg) ''tool_call_id'' = JUndefined
          \<and> get_prop (JObject msg) ''name'' = JString n \<and> n \<noteq> '''' \<longrightarrow>
          tool_use_id_of bi msg = n)"
proof -
  have roles: "\<forall>m \<in> set (mm_messages r). am_role m = ''user'' \<or> am_role m = ''assistant''"
    using mapMessages_spec(2) [OF assms] vendor_messages_of_roles by auto
  have sys: "message_role bi msg = ''system'' \<longrightarrow> vendor_messages_of bi msg = []"
    by (simp add: vendor_messages_of_def)
  have tool: "message_role bi msg = ''tool'' \<longrightarrow>
          vendor_messages_of bi msg =
            [\<lparr> am_role = ''user'',
               am_content =
                 ContentBlocks
                   [ToolResultBlock (tool_use_id_of bi msg) (content_or_empty bi msg)] \<rparr>]"
    by (simp add: vendor_messages_of_def tool_result_message_def)
  have id1: "get_prop (JObject msg) ''tool_call_id'' = JString s \<and> s \<noteq> '''' \<longrightarrow>
          tool_use_id_of bi msg = s"
    by (simp add: tool_use_id_of_def Let_def del: get_prop.simps)
  have id2: "get_prop (JObject msg) ''tool_call_id'' = JUndefined
          \<and> get_prop (JObject msg) ''name'' = JString n \<and> n \<noteq> '''' \<longrightarrow>
          tool_use_id_of bi msg = n"
    by (simp add: tool_use_id_of_def Let_def del: get_prop.simps)
  show ?thesis
    using roles mapMessages_spec [OF assms] sys tool id1 id2 by blast
qed

lemma conversation_example_mapped: "mapMessages js conversation_example = Inr conversation_mapped"
  by (simp add: mapMessages_def conversation_example_def conversation_mapped_def
      tool_message_example_def message_role_def content_or_empty_def normalizeContent_def
      mapOpenAIToolCalls_def mapOpenAIToolCall_def safeParseArguments_def js_def
      JSON_parse_tbl_def Let_def)

theorem mapMessages_roles_system_tool_results_witness:
  "mapMessages js conversation_example = Inr conversation_mapped
   \<and> mm_system conversation_mapped
       = Some (join [newline, newline] (system_texts js conversation_example))
   \<and> mm_messages conversation_mapped
       = concat (map (vendor_messages_of js) conversation_example)
   \<and> message_role js tool_message_example = ''tool''
   \<and> vendor_messages_of js tool_message_example
       = [\<lparr> am_role = ''user'',
            am_content = ContentBlocks [ToolResultBlock ''call_1'' ''contents''] \<rparr>]
   \<and> tool_use_id_of js tool_message_example = ''call_1''"
proof -
  note T = mapMessages_roles_system_tool_results
    [OF conversation_example_mapped, of tool_message_example "''call_1''" "''read_file''"]
  have st: "system_texts js conversation_example \<noteq> []"
    by (simp add: system_texts_def conversation_example_def message_role_def
        content_or_empty_def normalizeContent_def tool_message_example_def)
  have role: "message_role js tool_message_example = ''tool''"
    by (simp add: message_role_def tool_message_example_def)
  have tid: "get_prop (JObject tool_message_example) ''tool_call_id'' = JString ''call_1''"
    by (simp add: tool_message_example_def)
  have c: "content_or_empty js tool_message_example = ''contents''"
    by (simp add: content_or_empty_def normalizeContent_def tool_message_example_def)
  from T tid have i: "tool_use_id_of js tool_message_example = ''call_1''" by simp
  from T role have v: "vendor_messages_of js tool_message_example
       = [\<lparr> am_role = ''user'',
            am_content = ContentBlocks [ToolResultBlock ''call_1'' ''contents''] \<rparr>]"
    unfolding i c by blast
  from T st have s: "mm_system conversation_mapped
       = Some (join [newline, newline] (system_texts js conversation_example))"
    by simp
  from T have m: "mm_messages conversation_mapped
       = concat (map (vendor_messages_of js) conversation_example)"
    by blast
  show ?thesis using conversation_example_mapped s m role v i by blast
qed

section \<open>Properties of runOnce\<close>

subsection \<open>The branches of the loop of runOnce\<close>

lemma runOnce_loop_exit:
  "\<not> i < al_maxIterations agent \<Longrightarrow> runOnce_loop agent i fc st = (Inr fc, st)"
  by (subst runOnce_loop.simps) simp

lemma runOnce_loop_chat_throws:
  assumes "i < al_maxIterations agent"
    and "provider_chat (al_provider agent) (ts_world st) (ts_messages st)
           (getDefinitions (al_tools agent)) = (Inl e, w')"
  shows "runOnce_loop agent i fc st = (Inl e, after_chat st w')"
  using assms by (subst runOnce_loop.simps) (simp add: after_chat_def)

lemma runOnce_loop_final:
  assumes "i < al_maxIterations agent"
    and "provider_chat (al_provider agent) (ts_world st) (ts_messages st)
           (getDefinitions (al_tools agent)) = (Inr r, w')"
    and "present_calls (lr_toolCalls r) = []"
  shows "runOnce_loop agent i fc st
         = (Inr (Some (case lr_content r of Some c \<Rightarrow> c | None \<Rightarrow> '''')),
            after_response st r w')"
  using assms by (subst runOnce_loop.simps) (simp add: after_response_def)

lemma runOnce_loop_stringify_throws:
  assumes "i < al_maxIterations agent"
    and "provider_chat (al_provider agent) (ts_world st) (ts_messages st)
           (getDefinitions (al_tools agent)) = (Inr r, w')"
    and "present_calls (lr_toolCalls r) \<noteq> []"
    and "assistant_call_message (al_builtins agent) (content_or_null (lr_content r))
           (present_calls (lr_toolCalls r)) = Inl e"
  shows "runOnce_loop agent i fc st = (Inl e, after_response st r w')"
  using assms by (subst runOnce_loop.simps) (simp add: after_response_def)

lemma runOnce_loop_tool_throws:
  assumes "i < al_maxIterations agent"
    and "provider_chat (al_provider agent) (ts_world st) (ts_messages st)
           (getDefinitions (al_tools agent)) = (Inr r, w')"
    and "present_calls (lr_toolCalls r) \<noteq> []"
    and "assistant_call_message (al_builtins agent) (content_or_null (lr_content r))
           (present_calls (lr_toolCalls r)) = Inr msg"
    and "execute_calls (al_tools agent) (present_calls (lr_toolCalls r))
           ((after_response st r w')\<lparr> ts_messages := ts_messages st @ [msg] \<rparr>) = (Some e, st2)"
  shows "runOnce_loop agent i fc st = (Inl e, st2)"
  using assms by (subst runOnce_loop.simps) (simp add: after_response_def)

lemma runOnce_loop_continues:
  assumes "i < al_maxIterations agent"
    and "provider_chat (al_provider agent) (ts_world st) (ts_messages st)
           (getDefinitions (al_tools agent)) = (Inr r, w')"
    and "present_calls (lr_toolCalls r) \<noteq> []"
    and "assistant_call_message (al_builtins agent) (content_or_null (lr_content r))
           (present_calls (lr_toolCalls r)) = Inr msg"
    and "execute_calls (al_tools agent) (present_calls (lr_toolCalls r))
           ((after_response st r w')\<lparr> ts_messages := ts_messages st @ [msg] \<rparr>) = (None, st2)"
  shows "runOnce_loop agent i fc st = runOnce_loop agent (i + 1) fc st2"
  using assms by (subst runOnce_loop.simps) (simp add: after_response_def)

lemma execute_calls_provider_calls:
  "ts_provider_calls (snd (execute_calls tools calls st)) = ts_provider_calls st"
  by (induction calls arbitrary: st) (auto split: prod.splits sum.splits)

text \<open>
  Every run of the loop is one of six cases; the last one is the only one that goes round
  again.
\<close>

lemma runOnce_loop_cases:
  obtains (exit) "\<not> i < al_maxIterations agent" "runOnce_loop agent i fc st = (Inr fc, st)"
  | (chat_throws) e w' where "i < al_maxIterations agent"
      "runOnce_loop agent i fc st = (Inl e, after_chat st w')"
  | (final) r w' where "i < al_maxIterations agent"
      "provider_chat (al_provider agent) (ts_world st) (ts_messages st)
           (getDefinitions (al_tools agent)) = (Inr r, w')"
      "present_calls (lr_toolCalls r) = []"
      "runOnce_loop agent i fc st
         = (Inr (Some (case lr_content r of Some c \<Rightarrow> c | None \<Rightarrow> '''')),
            after_response st r w')"
  | (stringify_throws) e r w' where "i < al_maxIterations agent"
      "runOnce_loop agent i fc st = (Inl e, after_response st r w')"
  | (tool_throws) r w' msg e st2 where "i < al_maxIterations agent"
      "provider_chat (al_provider agent) (ts_world st) (ts_messages st)
           (getDefinitions (al_tools agent)) = (Inr r, w')"
      "execute_calls (al_tools agent) (present_calls (lr_toolCalls r))
           ((after_response st r w')\<lparr> ts_messages := ts_messages st @ [msg] \<rparr>) = (Some e, st2)"
      "runOnce_loop agent i fc st = (Inl e, st2)"
  | (continues) r w' msg st2 where "i < al_maxIterations agent"
      "provider_chat (al_provider agent) (ts_world st) (ts_messages st)
           (getDefinitions (al_tools agent)) = (Inr r, w')"
      "present_calls (lr_toolCalls r) \<noteq> []"
      "execute_calls (al_tools agent) (present_calls (lr_toolCalls r))
           ((after_response st r w')\<lparr> ts_messages := ts_messages st @ [msg] \<rparr>) = (None, st2)"
      "runOnce_loop agent i fc st = runOnce_loop agent (i + 1) fc st2"
proof (cases "i < al_maxIterations agent")
  case False
  show ?thesis by (rule exit [OF False runOnce_loop_exit [OF False]])
next
  case lt: True
  obtain res w' where chat: "provider_chat (al_provider agent) (ts_world st) (ts_messages st)
           (getDefinitions (al_tools agent)) = (res, w')"
    by (cases "provider_chat (al_provider agent) (ts_world st) (ts_messages st)
           (getDefinitions (al_tools agent))")
  show ?thesis
  proof (cases res)
    case (Inl e)
    with chat have c: "provider_chat (al_provider agent) (ts_world st) (ts_messages st)
           (getDefinitions (al_tools agent)) = (Inl e, w')" by simp
    show ?thesis by (rule chat_throws [OF lt runOnce_loop_chat_throws [OF lt c]])
  next
    case (Inr r)
    with chat have c: "provider_chat (al_provider agent) (ts_world st) (ts_messages st)
           (getDefinitions (al_tools agent)) = (Inr r, w')" by simp
    show ?thesis
    proof (cases "present_calls (lr_toolCalls r) = []")
      case True
      show ?thesis by (rule final [OF lt c True runOnce_loop_final [OF lt c True]])
    next
      case calls: False
      show ?thesis
      proof (cases "assistant_call_message (al_builtins agent) (content_or_null (lr_content r))
           (present_calls (lr_toolCalls r))")
        case (Inl e)
        show ?thesis
          by (rule stringify_throws [OF lt runOnce_loop_stringify_throws [OF lt c calls Inl]])
      next
        case msg: (Inr msg)
        obtain x st2 where ex: "execute_calls (al_tools agent) (present_calls (lr_toolCalls r))
           ((after_response st r w')\<lparr> ts_messages := ts_messages st @ [msg] \<rparr>) = (x, st2)"
          by (cases "execute_calls (al_tools agent) (present_calls (lr_toolCalls r))
           ((after_response st r w')\<lparr> ts_messages := ts_messages st @ [msg] \<rparr>)")
        show ?thesis
        proof (cases x)
          case None
          with ex have ex': "execute_calls (al_tools agent) (present_calls (lr_toolCalls r))
           ((after_response st r w')\<lparr> ts_messages := ts_messages st @ [msg] \<rparr>) = (None, st2)"
            by simp
          show ?thesis
            by (rule continues [OF lt c calls ex' runOnce_loop_continues [OF lt c calls msg ex']])
        next
          case (Some e)
          with ex have ex': "execute_calls (al_tools agent) (present_calls (lr_toolCalls r))
           ((after_response st r w')\<lparr> ts_messages := ts_messages st @ [msg] \<rparr>) = (Some e, st2)"
            by simp
          show ?thesis
            by (rule tool_throws [OF lt c ex' runOnce_loop_tool_throws [OF lt c calls msg ex']])
        qed
      qed
    qed
  qed
qed

lemma runOnce_loop_provider_calls_le:
  "ts_provider_calls (snd (runOnce_loop agent i fc st))
     \<le> ts_provider_calls st + (al_maxIterations agent - i)"
proof (induction "al_maxIterations agent - i" arbitrary: i st)
  case 0
  then show ?case by (simp add: runOnce_loop_exit)
next
  case (Suc n)
  then have lt: "i < al_maxIterations agent" and n: "n = al_maxIterations agent - (i + 1)"
    by simp_all
  show ?case
  proof (cases rule: runOnce_loop_cases [of i agent fc st])
    case exit
    then show ?thesis using lt by simp
  next
    case (chat_throws e w')
    then show ?thesis using lt by (simp add: after_chat_def)
  next
    case (final r w')
    then show ?thesis using lt by (simp add: after_response_def)
  next
    case (stringify_throws e r w')
    then show ?thesis using lt by (simp add: after_response_def)
  next
    case (tool_throws r w' msg e st2)
    have "ts_provider_calls st2 = ts_provider_calls st + 1"
      using execute_calls_provider_calls
        [of "al_tools agent" "present_calls (lr_toolCalls r)"
            "(after_response st r w')\<lparr> ts_messages := ts_messages st @ [msg] \<rparr>"]
        tool_throws(3) by (simp add: after_response_def)
    then show ?thesis using tool_throws(4) lt by simp
  next
    case (continues r w' msg st2)
    have c: "ts_provider_calls st2 = ts_provider_calls st + 1"
      using execute_calls_provider_calls
        [of "al_tools agent" "present_calls (lr_toolCalls r)"
            "(after_response st r w')\<lparr> ts_messages := ts_messages st @ [msg] \<rparr>"]
        continues(4) by (simp add: after_response_def)
    have "ts_provider_calls (snd (runOnce_loop agent (i + 1) fc st2))
            \<le> ts_provider_calls st2 + (al_maxIterations agent - (i + 1))"
      using Suc.hyps(1) [OF n] .
    then show ?thesis using continues(5) c lt by simp
  qed
qed

lemma execute_calls_responses:
  "ts_responses (snd (execute_calls tools calls st)) = ts_responses st"
  by (induction calls arbitrary: st) (auto split: prod.splits sum.splits)

text \<open>
  When the loop returns, it was left by \<open>break\<close> at a response without tool calls, or its
  condition failed after the remaining iterations, each with one provider call.
\<close>

lemma runOnce_loop_exhausts:
  assumes "runOnce_loop agent i fc st = (Inr x, st')"
    and "i \<le> al_maxIterations agent"
    and "every_response_has_tool_calls (ts_responses st')"
  shows "x = fc \<and> ts_provider_calls st' = ts_provider_calls st + (al_maxIterations agent - i)"
  using assms(1,2)
proof (induction "al_maxIterations agent - i" arbitrary: i st)
  case 0
  then show ?case by (simp add: runOnce_loop_exit)
next
  case (Suc n)
  then have lt: "i < al_maxIterations agent" and n: "n = al_maxIterations agent - (i + 1)"
    and le: "i + 1 \<le> al_maxIterations agent"
    by simp_all
  show ?case
  proof (cases rule: runOnce_loop_cases [of i agent fc st])
    case exit
    then show ?thesis using lt by simp
  next
    case (chat_throws e w')
    then show ?thesis using Suc.prems(1) by simp
  next
    case (final r w')
    with Suc.prems(1) have "st' = after_response st r w'" by simp
    then have "r \<in> set (ts_responses st')" by (simp add: after_response_def)
    with assms(3) have "present_calls (lr_toolCalls r) \<noteq> []"
      by (simp add: every_response_has_tool_calls_def)
    with final(3) show ?thesis by simp
  next
    case (stringify_throws e r w')
    then show ?thesis using Suc.prems(1) by simp
  next
    case (tool_throws r w' msg e st2)
    then show ?thesis using Suc.prems(1) by simp
  next
    case (continues r w' msg st2)
    have c: "ts_provider_calls st2 = ts_provider_calls st + 1"
      using execute_calls_provider_calls
        [of "al_tools agent" "present_calls (lr_toolCalls r)"
            "(after_response st r w')\<lparr> ts_messages := ts_messages st @ [msg] \<rparr>"]
        continues(4) by (simp add: after_response_def)
    from continues(5) Suc.prems(1) have "runOnce_loop agent (i + 1) fc st2 = (Inr x, st')"
      by simp
    from Suc.hyps(1) [OF n this le] show ?thesis using c lt by simp
  qed
qed

lemma map_option_all_total:
  "(\<And>x. x \<in> set xs \<Longrightarrow> f x \<noteq> None) \<Longrightarrow> \<exists>ys. map_option_all f xs = Some ys"
  by (induction xs) (auto split: option.splits)

lemma execute_calls_all_return:
  assumes "\<And>c w2. c \<in> set calls \<Longrightarrow> \<exists>s w3. execute tools (tc_name c) (tc_arguments c) w2 = (Inr s, w3)"
  shows "fst (execute_calls tools calls st) = None"
  using assms
proof (induction calls arbitrary: st)
  case Nil
  then show ?case by simp
next
  case (Cons c calls)
  obtain s w3 where "execute tools (tc_name c) (tc_arguments c) (ts_world st) = (Inr s, w3)"
    using Cons.prems [of c "ts_world st"] by auto
  then show ?case using Cons.IH Cons.prems by simp
qed

lemma nothing_throws_chat:
  "nothing_throws agent \<Longrightarrow>
     \<exists>r w'. provider_chat (al_provider agent) w messages tools = (Inr r, w')"
  unfolding nothing_throws_def by (elim conjE allE)

lemma nothing_throws_execute:
  "nothing_throws agent \<Longrightarrow>
   provider_chat (al_provider agent) w messages tools = (Inr r, w') \<Longrightarrow>
   c \<in> set (present_calls (lr_toolCalls r)) \<Longrightarrow>
     \<exists>s w3. execute (al_tools agent) (tc_name c) (tc_arguments c) w2 = (Inr s, w3)"
  unfolding nothing_throws_def by (elim conjE) fast

lemma nothing_throws_stringify:
  "nothing_throws agent \<Longrightarrow> JSON_stringify (al_builtins agent) v \<noteq> None"
  unfolding nothing_throws_def by (elim conjE allE)

lemma runOnce_loop_returns:
  assumes "nothing_throws agent"
  shows "\<exists>x st'. runOnce_loop agent i fc st = (Inr x, st')"
proof (induction "al_maxIterations agent - i" arbitrary: i st)
  case 0
  then show ?case by (simp add: runOnce_loop_exit)
next
  case (Suc n)
  then have lt: "i < al_maxIterations agent" and n: "n = al_maxIterations agent - (i + 1)"
    by simp_all
  obtain r w' where chat: "provider_chat (al_provider agent) (ts_world st) (ts_messages st)
           (getDefinitions (al_tools agent)) = (Inr r, w')"
    using nothing_throws_chat [OF assms] by blast
  show ?case
  proof (cases "present_calls (lr_toolCalls r) = []")
    case True
    then show ?thesis using runOnce_loop_final [OF lt chat True] by simp
  next
    case calls: False
    have "wire_tool_call (al_builtins agent) c \<noteq> None" for c
      using nothing_throws_stringify [OF assms, of "nullish_or (tc_arguments c) (JObject [])"]
      by (simp add: wire_tool_call_def split: option.splits)
    then obtain tcs where
      "map_option_all (wire_tool_call (al_builtins agent)) (present_calls (lr_toolCalls r))
       = Some tcs"
      using map_option_all_total [of "present_calls (lr_toolCalls r)"
          "wire_tool_call (al_builtins agent)"] by blast
    then obtain msg where msg: "assistant_call_message (al_builtins agent)
        (content_or_null (lr_content r)) (present_calls (lr_toolCalls r)) = Inr msg"
      by (simp add: assistant_call_message_def)
    have "fst (execute_calls (al_tools agent) (present_calls (lr_toolCalls r))
           ((after_response st r w')\<lparr> ts_messages := ts_messages st @ [msg] \<rparr>)) = None"
      by (rule execute_calls_all_return) (rule nothing_throws_execute [OF assms chat])
    then obtain st2 where ex: "execute_calls (al_tools agent) (present_calls (lr_toolCalls r))
           ((after_response st r w')\<lparr> ts_messages := ts_messages st @ [msg] \<rparr>) = (None, st2)"
      by (metis prod.collapse)
    show ?thesis
      using runOnce_loop_continues [OF lt chat calls msg ex] Suc.hyps(1) [OF n] by simp
  qed
qed

subsection \<open>runOnce as a whole\<close>

lemma finish_turn_state [simp]:
  "tr_state (finish_turn agent mgr key session u final st) = st"
  by (simp add: finish_turn_def Let_def split: prod.splits option.splits)

lemma finish_turn_outcome:
  "tr_outcome (finish_turn agent mgr key session u final st) = Inr s \<Longrightarrow> s = final"
  by (auto simp: finish_turn_def Let_def split: prod.splits option.splits)

lemma runOnce_unfold:
  assumes "getOrCreate (al_builtins agent) mgr key (al_now agent w) = (session, mgr1)"
  shows "runOnce agent mgr w key u =
     (case runOnce_loop agent 0 None (initial_turn_state session u w) of
        (Inl err, st) \<Rightarrow> \<lparr> tr_outcome = Inl err, tr_manager = mgr1, tr_state = st \<rparr>
      | (Inr finalContent, st) \<Rightarrow>
          finish_turn agent mgr1 key session u
            (case finalContent of Some c \<Rightarrow> c | None \<Rightarrow> '''') st)"
  using assms by (simp add: runOnce_def)

lemma runOnce_state:
  assumes "getOrCreate (al_builtins agent) mgr key (al_now agent w) = (session, mgr1)"
  shows "tr_state (runOnce agent mgr w key u)
         = snd (runOnce_loop agent 0 None (initial_turn_state session u w))"
  unfolding runOnce_unfold [OF assms] by (simp split: prod.splits sum.splits)

lemma runOnce_provider_calls_le:
  "ts_provider_calls (tr_state (runOnce agent mgr w key u)) \<le> al_maxIterations agent"
proof -
  obtain session mgr1 where
    g: "getOrCreate (al_builtins agent) mgr key (al_now agent w) = (session, mgr1)"
    by (cases "getOrCreate (al_builtins agent) mgr key (al_now agent w)")
  show ?thesis
    using runOnce_loop_provider_calls_le [of agent 0 None "initial_turn_state session u w"]
    by (simp add: runOnce_state [OF g] initial_turn_state_def)
qed

lemma runOnce_exhausted:
  assumes "every_response_has_tool_calls (ts_responses (tr_state (runOnce agent mgr w key u)))"
    and "tr_outcome (runOnce agent mgr w key u) = Inr s"
  shows "s = '''' \<and> ts_provider_calls (tr_state (runOnce agent mgr w key u)) = al_maxIterations agent"
proof -
  obtain session mgr1 where
    g: "getOrCreate (al_builtins agent) mgr key (al_now agent w) = (session, mgr1)"
    by (cases "getOrCreate (al_builtins agent) mgr key (al_now agent w)")
  obtain res st where l: "runOnce_loop agent 0 None (initial_turn_state session u w) = (res, st)"
    by (cases "runOnce_loop agent 0 None (initial_turn_state session u w)")
  have st: "tr_state (runOnce agent mgr w key u) = st"
    using l by (simp add: runOnce_state [OF g])
  show ?thesis
  proof (cases res)
    case (Inl e)
    then show ?thesis using assms(2) l by (simp add: runOnce_unfold [OF g])
  next
    case (Inr x)
    with l have l': "runOnce_loop agent 0 None (initial_turn_state session u w) = (Inr x, st)"
      by simp
    have all: "every_response_has_tool_calls (ts_responses st)"
      using assms(1) st by simp
    from runOnce_loop_exhausts [OF l' _ all] have x: "x = None"
      and c: "ts_provider_calls st = al_maxIterations agent"
      by (simp_all add: initial_turn_state_def)
    have "runOnce agent mgr w key u = finish_turn agent mgr1 key session u '''' st"
      using l' x by (simp add: runOnce_unfold [OF g])
    then show ?thesis using assms(2) c finish_turn_outcome by fastforce
  qed
qed

text \<open>
  C2, as stated, fails when a tool execution throws: \<open>runOnce\<close> has no handler around
  \<open>execute\<close>. With a provider whose every response asks for the tool \<open>nope\<close> and a registry
  that does not have it, the first execution throws \<open>Tool not found: nope\<close>; \<open>runOnce\<close> ends
  with that exception after one provider call and returns nothing.
\<close>

theorem runOnce_tool_not_found_ends_turn:
  "tr_outcome (runOnce (new_AgentLoop (always_calls ''nope'') echo_registry js clock)
                 empty_manager () ''s1'' ''hi'')
     = Inl (ThrownError ''Tool not found: nope'')
   \<and> ts_provider_calls
       (tr_state (runOnce (new_AgentLoop (always_calls ''nope'') echo_registry js clock)
                    empty_manager () ''s1'' ''hi''))
     = 1"
  by (simp add: runOnce_def runOnce_loop.simps new_AgentLoop_def always_calls_def call_of_def
      echo_registry_def register_def echo_tool_def js_def JSON_stringify_tbl_def clock_def
      empty_manager_def getOrCreate_def load_def getSessionPath_def new_Session_def initial_turn_state_def
      initial_messages_def getHistory_def getDefinitions_def Map_values_def toSchema_def
      present_calls_def assistant_call_message_def wire_tool_call_def content_or_null_def
      execute_def Map_get_def Let_def)

text \<open>
  C2, amended. For every provider, registry and session state, \<open>runOnce\<close> terminates (the
  model is a total function: it returns, or ends with the exception that a provider call, a
  tool execution or a serialization has thrown) and performs at most \<open>maxIterations\<close>
  provider calls, 4 for an agent made by the constructor. If every response that the provider
  returned in this invocation carries tool calls and the invocation completes without an
  exception, exactly \<open>maxIterations\<close> provider calls were made and the empty string is
  returned.
\<close>

theorem runOnce_bounded_and_exhausted:
  "ts_provider_calls (tr_state (runOnce agent mgr w key u)) \<le> al_maxIterations agent
   \<and> al_maxIterations (new_AgentLoop provider tools bi now) = 4
   \<and> (every_response_has_tool_calls (ts_responses (tr_state (runOnce agent mgr w key u)))
        \<and> tr_outcome (runOnce agent mgr w key u) = Inr s
        \<longrightarrow> s = ''''
            \<and> ts_provider_calls (tr_state (runOnce agent mgr w key u)) = al_maxIterations agent)"
  using runOnce_provider_calls_le [of agent mgr w key u] runOnce_exhausted [of agent mgr w key u s]
  by (simp add: new_AgentLoop_def)

text \<open>
  The run of an agent whose provider asks for the tool \<open>echo\<close> in every response: four
  responses, each with the call, and the empty string.
\<close>

lemma runOnce_echo_example:
  "tr_outcome (runOnce (new_AgentLoop (always_calls ''echo'') echo_registry js clock)
                 empty_manager () ''s1'' ''hi'') = Inr ''''
   \<and> ts_responses (tr_state (runOnce (new_AgentLoop (always_calls ''echo'') echo_registry js clock)
                 empty_manager () ''s1'' ''hi''))
     = replicate 4 \<lparr> lr_content = None, lr_toolCalls = Some [call_of ''echo''],
                       lr_finishReason = ''tool_calls'' \<rparr>"
  by (simp add: runOnce_def runOnce_loop.simps new_AgentLoop_def always_calls_def call_of_def
      echo_registry_def register_def echo_tool_def js_def JSON_stringify_tbl_def clock_def
      empty_manager_def getOrCreate_def load_def getSessionPath_def new_Session_def initial_turn_state_def
      initial_messages_def getHistory_def getDefinitions_def Map_values_def toSchema_def
      present_calls_def assistant_call_message_def wire_tool_call_def content_or_null_def
      execute_def Map_get_def Let_def finish_turn_def addMessage_def save_def
      getUnsavedMessages_def stringify_message_def markSaved_def appendFile_def tool_result_msg_def
      eval_nat_numeral)

theorem runOnce_bounded_and_exhausted_witness:
  "every_response_has_tool_calls
     (ts_responses (tr_state (runOnce (new_AgentLoop (always_calls ''echo'') echo_registry js clock)
                                empty_manager () ''s1'' ''hi'')))
   \<and> tr_outcome (runOnce (new_AgentLoop (always_calls ''echo'') echo_registry js clock)
                   empty_manager () ''s1'' ''hi'') = Inr ''''
   \<and> ts_provider_calls
       (tr_state (runOnce (new_AgentLoop (always_calls ''echo'') echo_registry js clock)
                    empty_manager () ''s1'' ''hi''))
     = 4"
proof -
  have r: "every_response_has_tool_calls
     (ts_responses (tr_state (runOnce (new_AgentLoop (always_calls ''echo'') echo_registry js clock)
                                empty_manager () ''s1'' ''hi'')))"
    by (simp add: runOnce_echo_example every_response_has_tool_calls_def present_calls_def)
  show ?thesis
    using runOnce_bounded_and_exhausted
      [of "new_AgentLoop (always_calls ''echo'') echo_registry js clock" empty_manager "()"
          "''s1''" "''hi''" "always_calls ''echo''" echo_registry js clock "''''"]
      r runOnce_echo_example
    by (simp add: new_AgentLoop_def)
qed

subsection \<open>Well-formed sessions\<close>

lemma wf_new_Session: "wf_session (new_Session key messages now)"
  by (simp add: wf_session_def new_Session_def split: option.splits)

lemma new_Session_key: "s_key (new_Session key messages now) = key"
  by (simp add: new_Session_def split: option.splits)

lemma wf_addMessage: "wf_session session \<Longrightarrow> wf_session (addMessage session role content now)"
  by (simp add: wf_session_def addMessage_def Let_def)

lemma wf_markSaved: "wf_session (markSaved session)"
  by (simp add: wf_session_def markSaved_def)


lemma wf_getOrCreate:
  assumes "wf_manager mgr" and "getOrCreate bi mgr key now = (session, mgr1)"
  shows "wf_session session \<and> s_key session = key \<and> wf_manager mgr1"
proof (cases "sessions mgr key")
  case (Some existing)
  then show ?thesis using assms by (auto simp: getOrCreate_def wf_manager_def)
next
  case None
  have "wf_session (case load bi mgr key now of Some loaded \<Rightarrow> loaded
                    | None \<Rightarrow> new_Session key None now)
        \<and> s_key (case load bi mgr key now of Some loaded \<Rightarrow> loaded
                 | None \<Rightarrow> new_Session key None now) = key"
    by (auto simp: load_def Let_def wf_new_Session new_Session_key split: option.splits)
  then show ?thesis
    using assms None by (auto simp: getOrCreate_def Let_def wf_manager_def split: if_splits)
qed

lemma save_session:
  "save bi mgr session = (r, mgr', session') \<Longrightarrow>
     (wf_session session \<longrightarrow> wf_session session') \<and> s_key session' = s_key session
     \<and> sessions mgr' = sessions mgr \<and> baseDir mgr' = baseDir mgr"
  by (auto simp: save_def Let_def wf_session_def markSaved_def split: if_splits option.splits)

lemma wf_finish_turn:
  assumes "wf_manager mgr" and "wf_session session" and "s_key session = key"
  shows "wf_manager (tr_manager (finish_turn agent mgr key session u final st))"
proof -
  let ?s2 = "addMessage (addMessage session ''user'' (JString u) (al_now agent (ts_world st)))
               ''assistant'' (JString final) (al_now agent (ts_world st))"
  obtain r mgr' s3 where sv: "save (al_builtins agent) mgr ?s2 = (r, mgr', s3)"
    by (metis prod.collapse)
  have "wf_session ?s2" using assms(2) by (intro wf_addMessage)
  moreover have "s_key ?s2 = key" using assms(3) by (simp add: addMessage_def Let_def)
  ultimately have "wf_session s3" and "s_key s3 = key" and "sessions mgr' = sessions mgr"
    using save_session [OF sv] by simp_all
  then show ?thesis
    using assms(1) sv by (cases r) (auto simp: finish_turn_def Let_def wf_manager_def)
qed

text \<open>\<open>runOnce\<close> keeps the manager well formed, whatever the outcome.\<close>

lemma wf_runOnce:
  assumes "wf_manager mgr"
  shows "wf_manager (tr_manager (runOnce agent mgr w key u))"
proof -
  obtain session mgr1 where
    g: "getOrCreate (al_builtins agent) mgr key (al_now agent w) = (session, mgr1)"
    by (metis prod.collapse)
  from wf_getOrCreate [OF assms g] have s: "wf_session session" and k: "s_key session = key"
    and m: "wf_manager mgr1"
    by simp_all
  show ?thesis
    unfolding runOnce_unfold [OF g]
    using m wf_finish_turn [OF m s k] by (auto split: prod.splits sum.splits)
qed

subsection \<open>What a completed turn leaves in the session store\<close>

lemma getOrCreate_files:
  "getOrCreate bi mgr key now = (session, mgr1) \<Longrightarrow>
     files mgr1 = files mgr \<and> baseDir mgr1 = baseDir mgr"
  by (auto simp: getOrCreate_def Let_def split: option.splits)

lemma getOrCreate_session:
  "getOrCreate bi mgr key now = (session, mgr1) \<Longrightarrow> sessions mgr1 key = Some session"
  by (auto simp: getOrCreate_def Let_def split: option.splits)

lemma getOrCreate_other:
  "getOrCreate bi mgr key now = (session, mgr1) \<Longrightarrow> k \<noteq> key \<Longrightarrow>
     sessions mgr1 k = sessions mgr k"
  by (auto simp: getOrCreate_def Let_def split: option.splits)

text \<open>
  Examples of the file handling: line ends of both kinds, a payload appended to a last line
  without a line end, and two keys with one file.
\<close>

lemma split_lines_example:
  "split_lines (''a'' @ [carriage_return, newline] @ ''b'' @ [newline]) = [''a'', ''b'', '''']"
  by (simp add: carriage_return_def newline_def)

lemma appendFile_example:
  "appendFile [p \<mapsto> ''x''] p (''y'' @ [newline]) = [p \<mapsto> ''xy'' @ [newline]]"
  by (simp add: appendFile_def)

lemma getSessionPath_example:
  "getSessionPath js empty_manager ''s1'' = ''/home/user/.yana/sessions/s1.jsonl''
   \<and> getSessionPath js empty_manager ''sub/../s1'' = ''/home/user/.yana/sessions/s1.jsonl''"
  by (simp add: getSessionPath_def js_def empty_manager_def posix_join_def posix_normalize_def
      Let_def)










text \<open>
  A manager that starts on the file system which that run has left loads the two messages
  from the file.
\<close>

lemma load_example:
  \<open>load js
     (empty_manager\<lparr> files :=
        [''/home/user/.yana/sessions/s1.jsonl'' \<mapsto>
           ''{"role":"user","content":"hi","timestamp":"2026-01-01T00:00:00.000Z"}'' @ [newline]
           @ ''{"role":"assistant","content":"","timestamp":"2026-01-01T00:00:00.000Z"}''
           @ [newline]] \<rparr>)
     ''s1'' ''2026-01-02T00:00:00.000Z''
   = Some \<lparr> s_key = ''s1'', s_createdAt = ''2026-01-02T00:00:00.000Z'',
            s_updatedAt = ''2026-01-02T00:00:00.000Z'',
            s_messages =
              [\<lparr> sm_role = ''user'', sm_content = JString ''hi'',
                  sm_timestamp = ''2026-01-01T00:00:00.000Z'' \<rparr>,
               \<lparr> sm_role = ''assistant'', sm_content = JString '''',
                  sm_timestamp = ''2026-01-01T00:00:00.000Z'' \<rparr>],
            s_lastSavedIndex = 2 \<rparr>\<close>
  by (simp add: load_def getSessionPath_def js_def empty_manager_def posix_join_def
      posix_normalize_def Let_def newline_def trim_def is_space_def load_line_def
      JSON_parse_tbl_def List.map_filter_def new_Session_def carriage_return_def)

section \<open>Properties of runOnceStream\<close>

subsection \<open>A batch of tool calls in which one execution throws\<close>

lemma execute_calls_stream_append:
  "execute_calls_stream tools pre st = (None, st1) \<Longrightarrow>
     execute_calls_stream tools (pre @ rest) st = execute_calls_stream tools rest st1"
  by (induction pre arbitrary: st) (auto split: prod.splits sum.splits)

lemma execute_calls_stream_throws:
  "execute tools (tc_name c) (tc_arguments c) (ts_world st1) = (Inl e, w') \<Longrightarrow>
     execute_calls_stream tools (c # post) st1 =
       (Some e,
        st1\<lparr> ts_world := w',
              ts_executed := ts_executed st1 @ [(tc_name c, tc_arguments c)],
              ts_events := ts_events st1 @ [ToolErrorEvent (tc_name c) (thrown_message e)] \<rparr>)"
  by simp

lemma execute_calls_stream_events:
  assumes "no_tool_error (ts_events st)"
    and "execute_calls_stream tools calls st = (r, st')"
  shows "case r of None \<Rightarrow> no_tool_error (ts_events st') | Some e \<Rightarrow> ended_by_tool_error st' e"
  using assms
proof (induction calls arbitrary: st)
  case Nil
  then show ?case by simp
next
  case (Cons c calls)
  obtain x w' where ex: "execute tools (tc_name c) (tc_arguments c) (ts_world st) = (x, w')"
    by (cases "execute tools (tc_name c) (tc_arguments c) (ts_world st)")
  show ?case
  proof (cases x)
    case (Inl e)
    with ex Cons.prems(2) have r: "r = Some e"
      and st': "st' = st\<lparr> ts_world := w',
              ts_executed := ts_executed st @ [(tc_name c, tc_arguments c)],
              ts_events := ts_events st @ [ToolErrorEvent (tc_name c) (thrown_message e)] \<rparr>"
      by simp_all
    have "ended_by_tool_error st' e"
      unfolding ended_by_tool_error_def st' using Cons.prems(1) by auto
    with r show ?thesis by simp
  next
    case (Inr result)
    let ?st1 = "st\<lparr> ts_world := w',
                 ts_executed := ts_executed st @ [(tc_name c, tc_arguments c)],
                 ts_events := ts_events st @ [ToolResultEvent (tc_name c) result],
                 ts_messages := ts_messages st @ [tool_result_msg c result] \<rparr>"
    have n: "no_tool_error (ts_events ?st1)"
      using Cons.prems(1) by (auto simp: no_tool_error_def)
    have "execute_calls_stream tools calls ?st1 = (r, st')"
      using Cons.prems(2) ex Inr by simp
    from Cons.IH [OF n this] show ?thesis .
  qed
qed

subsection \<open>One pass through the loop body\<close>

lemma no_tool_error_append_calls:
  "no_tool_error evs \<Longrightarrow> no_tool_error (evs @ tool_call_events calls)"
  by (auto simp: no_tool_error_def tool_call_events_def)

lemma no_tool_error_status:
  "no_tool_error evs \<Longrightarrow> no_tool_error (evs @ [StatusEvent s])"
  by (auto simp: no_tool_error_def)

lemma run_tool_calls_ok:
  assumes "no_tool_error (ts_events st1)"
  shows "body_ok (run_tool_calls agent content toolCalls continue_with st1)"
proof -
  let ?st2 = "st1\<lparr> ts_events := ts_events st1 @ tool_call_events toolCalls \<rparr>"
  have n2: "no_tool_error (ts_events ?st2)"
    using assms by (simp add: no_tool_error_append_calls)
  show ?thesis
  proof (cases "assistant_call_message (al_builtins agent) content toolCalls")
    case (Inl err)
    then show ?thesis
      using n2 by (simp add: run_tool_calls_def body_ok_def exit_ok_def)
  next
    case (Inr msg)
    obtain r st3 where ex: "execute_calls_stream (al_tools agent) toolCalls
                  (?st2\<lparr> ts_messages := ts_messages ?st2 @ [msg] \<rparr>) = (r, st3)"
      by (cases "execute_calls_stream (al_tools agent) toolCalls
                  (?st2\<lparr> ts_messages := ts_messages ?st2 @ [msg] \<rparr>)")
    have "no_tool_error (ts_events (?st2\<lparr> ts_messages := ts_messages ?st2 @ [msg] \<rparr>))"
      using n2 by simp
    from execute_calls_stream_events [OF this ex]
    have "case r of None \<Rightarrow> no_tool_error (ts_events st3) | Some e \<Rightarrow> ended_by_tool_error st3 e" .
    then show ?thesis
      using Inr ex by (cases r) (simp_all add: run_tool_calls_def body_ok_def exit_ok_def Let_def)
  qed
qed

lemma runOnceStream_body_alt:
  "runOnceStream_body agent finalContent st =
     (let st0 = st\<lparr> ts_events := ts_events st @ [StatusEvent ''thinking''] \<rparr> in
      case provider_stream (al_provider agent) of
        Some stream \<Rightarrow>
          (case stream (ts_world st0) (ts_messages st0) (getDefinitions (al_tools agent)) of
             ((chunks, thrown), w') \<Rightarrow>
               (case foldl consume_chunk ('''', [], []) chunks of
                  (streamedContent, toolCalls, deltas) \<Rightarrow>
                    (let st1 = st0\<lparr> ts_world := w',
                                    ts_provider_calls := ts_provider_calls st0 + 1,
                                    ts_deltas := ts_deltas st0 @ deltas \<rparr>
                     in
                     case thrown of
                       Some err \<Rightarrow> Inl (Inl err, st1)
                     | None \<Rightarrow>
                         if length toolCalls > 0 then
                           run_tool_calls agent (nonempty_or_null streamedContent) toolCalls
                             '''' st1
                         else Inl (Inr streamedContent, st1))))
      | None \<Rightarrow>
          (case provider_chat (al_provider agent) (ts_world st0) (ts_messages st0)
                  (getDefinitions (al_tools agent)) of
             (Inl err, w') \<Rightarrow>
               Inl (Inl err,
                    st0\<lparr> ts_world := w', ts_provider_calls := ts_provider_calls st0 + 1 \<rparr>)
           | (Inr response, w') \<Rightarrow>
               (let st1 = st0\<lparr> ts_world := w',
                               ts_provider_calls := ts_provider_calls st0 + 1,
                               ts_responses := ts_responses st0 @ [response] \<rparr>;
                    toolCalls = present_calls (lr_toolCalls response)
                in
                if length toolCalls > 0 then
                  run_tool_calls agent (content_or_null (lr_content response)) toolCalls
                    finalContent st1
                else
                  (let final = (case lr_content response of Some c \<Rightarrow> c | None \<Rightarrow> '''')
                   in Inl (Inr final,
                           st1\<lparr> ts_deltas := ts_deltas st1
                                  @ (if final \<noteq> '''' then [final] else []) \<rparr>)))))"
  unfolding runOnceStream_body_def run_tool_calls_def ..

lemma runOnceStream_body_ok:
  assumes "no_tool_error (ts_events st)"
  shows "body_ok (runOnceStream_body agent finalContent st)"
proof -
  let ?st0 = "st\<lparr> ts_events := ts_events st @ [StatusEvent ''thinking''] \<rparr>"
  have n0: "no_tool_error (ts_events ?st0)"
    using assms by (simp add: no_tool_error_status)
  show ?thesis
  proof (cases "provider_stream (al_provider agent)")
    case (Some stream)
    obtain chunks thrown w' where s: "stream (ts_world ?st0) (ts_messages ?st0)
        (getDefinitions (al_tools agent)) = ((chunks, thrown), w')"
      by (metis prod.collapse)
    obtain streamedContent toolCalls deltas where
      f: "foldl consume_chunk ('''', [], []) chunks = (streamedContent, toolCalls, deltas)"
      by (metis prod.collapse)
    let ?st1 = "?st0\<lparr> ts_world := w', ts_provider_calls := ts_provider_calls ?st0 + 1,
                      ts_deltas := ts_deltas ?st0 @ deltas \<rparr>"
    have n1: "no_tool_error (ts_events ?st1)" using n0 by simp
    have b: "runOnceStream_body agent finalContent st =
        (case thrown of
           Some err \<Rightarrow> Inl (Inl err, ?st1)
         | None \<Rightarrow>
             if length toolCalls > 0 then
               run_tool_calls agent (nonempty_or_null streamedContent) toolCalls '''' ?st1
             else Inl (Inr streamedContent, ?st1))"
      unfolding runOnceStream_body_alt using Some s f
      by (simp add: Let_def cong: option.case_cong if_cong)
    show ?thesis
      unfolding b using n1 run_tool_calls_ok [OF n1]
      by (auto simp: body_ok_def exit_ok_def split: option.splits)
  next
    case None
    obtain x w' where c: "provider_chat (al_provider agent) (ts_world ?st0) (ts_messages ?st0)
        (getDefinitions (al_tools agent)) = (x, w')"
      by (metis prod.collapse)
    show ?thesis
    proof (cases x)
      case (Inl err)
      let ?st1 = "?st0\<lparr> ts_world := w', ts_provider_calls := ts_provider_calls ?st0 + 1 \<rparr>"
      have n1: "no_tool_error (ts_events ?st1)" using n0 by simp
      have "runOnceStream_body agent finalContent st = Inl (Inl err, ?st1)"
        unfolding runOnceStream_body_alt using None c Inl
        by (simp add: Let_def cong: option.case_cong if_cong)
      then show ?thesis using n1 by (simp add: body_ok_def exit_ok_def)
    next
      case (Inr response)
      let ?st1 = "?st0\<lparr> ts_world := w', ts_provider_calls := ts_provider_calls ?st0 + 1,
                        ts_responses := ts_responses ?st0 @ [response] \<rparr>"
      have n1: "no_tool_error (ts_events ?st1)" using n0 by simp
      have b: "runOnceStream_body agent finalContent st =
         (if length (present_calls (lr_toolCalls response)) > 0 then
            run_tool_calls agent (content_or_null (lr_content response))
              (present_calls (lr_toolCalls response)) finalContent ?st1
          else
            Inl (Inr (case lr_content response of Some c \<Rightarrow> c | None \<Rightarrow> ''''),
                 ?st1\<lparr> ts_deltas := ts_deltas ?st1
                   @ (if (case lr_content response of Some c \<Rightarrow> c | None \<Rightarrow> '''') \<noteq> ''''
                      then [case lr_content response of Some c \<Rightarrow> c | None \<Rightarrow> ''''] else []) \<rparr>))"
        unfolding runOnceStream_body_alt using None c Inr
        by (simp add: Let_def cong: option.case_cong if_cong)
      show ?thesis
        unfolding b using n1 run_tool_calls_ok [OF n1]
        by (auto simp: body_ok_def exit_ok_def)
    qed
  qed
qed

subsection \<open>The loop and the turn\<close>

lemma runOnceStream_loop_exit:
  "\<not> i < al_maxIterations agent \<Longrightarrow> runOnceStream_loop agent i fc st = (Inr fc, st)"
  by (subst runOnceStream_loop.simps) simp

lemma runOnceStream_loop_left:
  "i < al_maxIterations agent \<Longrightarrow> runOnceStream_body agent fc st = Inl left \<Longrightarrow>
     runOnceStream_loop agent i fc st = left"
  by (subst runOnceStream_loop.simps) simp

lemma runOnceStream_loop_next:
  "i < al_maxIterations agent \<Longrightarrow> runOnceStream_body agent fc st = Inr (fc', st') \<Longrightarrow>
     runOnceStream_loop agent i fc st = runOnceStream_loop agent (i + 1) fc' st'"
  by (subst runOnceStream_loop.simps) simp

lemma runOnceStream_loop_ok:
  assumes "no_tool_error (ts_events st)"
  shows "exit_ok (runOnceStream_loop agent i fc st)"
  using assms
proof (induction "al_maxIterations agent - i" arbitrary: i fc st)
  case 0
  then show ?case by (simp add: runOnceStream_loop_exit exit_ok_def)
next
  case (Suc n)
  then have lt: "i < al_maxIterations agent" and n: "n = al_maxIterations agent - (i + 1)"
    by simp_all
  have b: "body_ok (runOnceStream_body agent fc st)"
    using Suc.prems by (rule runOnceStream_body_ok)
  show ?case
  proof (cases "runOnceStream_body agent fc st")
    case (Inl left)
    then show ?thesis
      using b runOnceStream_loop_left [OF lt Inl] by (simp add: body_ok_def)
  next
    case (Inr nxt)
    obtain fc' st' where nx: "nxt = (fc', st')" by (cases nxt)
    with Inr b have "no_tool_error (ts_events st')" by (simp add: body_ok_def)
    from Suc.hyps(1) [OF n this] show ?thesis
      using runOnceStream_loop_next [OF lt Inr [unfolded nx]] by simp
  qed
qed

lemma runOnceStream_unfold:
  assumes "getOrCreate (al_builtins agent) mgr key (al_now agent w) = (session, mgr1)"
  shows "runOnceStream agent mgr w key u =
     (case runOnceStream_loop agent 0 '''' (initial_turn_state session u w) of
        (Inl err, st) \<Rightarrow> \<lparr> tr_outcome = Inl err, tr_manager = mgr1, tr_state = st \<rparr>
      | (Inr finalContent, st) \<Rightarrow> finish_turn agent mgr1 key session u finalContent st)"
  using assms by (simp add: runOnceStream_def)

lemma tool_error_is_last:
  assumes "ended_by_tool_error st e" and "ToolErrorEvent n m \<in> set (ts_events st)"
  shows "m = thrown_message e \<and> last (ts_events st) = ToolErrorEvent n m
         \<and> (\<exists>args. last (ts_executed st) = (n, args))"
proof -
  from assms(1) obtain evs exs n' args where
    ev: "ts_events st = evs @ [ToolErrorEvent n' (thrown_message e)]"
    and free: "no_tool_error evs"
    and ex: "ts_executed st = exs @ [(n', args)]"
    unfolding ended_by_tool_error_def by blast
  from assms(2) ev free have "n = n' \<and> m = thrown_message e"
    by (auto simp: no_tool_error_def)
  then show ?thesis using ev ex by simp
qed

lemma runOnceStream_tool_error:
  assumes "ToolErrorEvent n m \<in> set (ts_events (tr_state (runOnceStream agent mgr w key u)))"
    and "getOrCreate (al_builtins agent) mgr key (al_now agent w) = (session, mgr1)"
  shows "\<exists>e. tr_outcome (runOnceStream agent mgr w key u) = Inl e \<and> thrown_message e = m
           \<and> ended_by_tool_error (tr_state (runOnceStream agent mgr w key u)) e
           \<and> tr_manager (runOnceStream agent mgr w key u) = mgr1"
proof -
  obtain res st where
    l: "runOnceStream_loop agent 0 '''' (initial_turn_state session u w) = (res, st)"
    by (cases "runOnceStream_loop agent 0 '''' (initial_turn_state session u w)")
  have "no_tool_error (ts_events (initial_turn_state session u w))"
    by (simp add: initial_turn_state_def no_tool_error_def)
  from runOnceStream_loop_ok [OF this, of agent 0 "''''"] l
  have ok: "no_tool_error (ts_events st) \<or> (\<exists>e. res = Inl e \<and> ended_by_tool_error st e)"
    by (simp add: exit_ok_def)
  have st: "tr_state (runOnceStream agent mgr w key u) = st"
    unfolding runOnceStream_unfold [OF assms(2)] using l by (simp split: sum.splits)
  with assms(1) have "\<not> no_tool_error (ts_events st)"
    by (auto simp: no_tool_error_def)
  with ok obtain e where e: "res = Inl e" and ended: "ended_by_tool_error st e" by blast
  have r: "runOnceStream agent mgr w key u
           = \<lparr> tr_outcome = Inl e, tr_manager = mgr1, tr_state = st \<rparr>"
    unfolding runOnceStream_unfold [OF assms(2)] using l e by simp
  have "m = thrown_message e"
    using tool_error_is_last [OF ended] assms(1) st by simp
  then show ?thesis using r ended by simp
qed

text \<open>
  C8. In \<open>runOnceStream\<close> an exception thrown by a tool execution ends the turn at once.

  \<^item> Within the batch of one response: when the calls before \<open>c\<close> have executed and the
    execution of \<open>c\<close> throws \<open>e\<close>, the batch ends with \<open>e\<close> in the state reached before
    \<open>c\<close>, changed only by the world that the failed execution left, the record that \<open>c\<close> was
    started, and the \<open>tool_error\<close> event. The message list is the one from before \<open>c\<close>: no
    tool message for \<open>c\<close> is appended; and none of the calls after \<open>c\<close> is started.
  \<^item> For the turn: when a \<open>tool_error\<close> event occurs among the events of a run (which
    happens exactly when a tool execution throws), the run ends with the exception whose
    message the event carries, that event is the last event and its tool is the last one
    started, and the session manager is the one that \<open>getOrCreate\<close> returned at the
    beginning: no file has changed, the session of the key has no message added, and the
    sessions of other keys are as they were.
\<close>

theorem runOnceStream_tool_failure_aborts_turn:
  "(execute_calls_stream tools pre st = (None, st1)
      \<and> execute tools (tc_name c) (tc_arguments c) (ts_world st1) = (Inl e, w')
      \<longrightarrow> execute_calls_stream tools (pre @ c # post) st =
            (Some e,
             st1\<lparr> ts_world := w',
                   ts_executed := ts_executed st1 @ [(tc_name c, tc_arguments c)],
                   ts_events := ts_events st1
                     @ [ToolErrorEvent (tc_name c) (thrown_message e)] \<rparr>))
   \<and> (ToolErrorEvent n m \<in> set (ts_events (tr_state (runOnceStream agent mgr w key u)))
      \<longrightarrow> (\<exists>e'. tr_outcome (runOnceStream agent mgr w key u) = Inl e' \<and> thrown_message e' = m)
          \<and> last (ts_events (tr_state (runOnceStream agent mgr w key u))) = ToolErrorEvent n m
          \<and> (\<exists>args. last (ts_executed (tr_state (runOnceStream agent mgr w key u))) = (n, args))
          \<and> tr_manager (runOnceStream agent mgr w key u)
              = snd (getOrCreate (al_builtins agent) mgr key (al_now agent w))
          \<and> files (tr_manager (runOnceStream agent mgr w key u)) = files mgr
          \<and> sessions (tr_manager (runOnceStream agent mgr w key u)) key
              = Some (fst (getOrCreate (al_builtins agent) mgr key (al_now agent w)))
          \<and> (\<forall>k. k \<noteq> key
                \<longrightarrow> sessions (tr_manager (runOnceStream agent mgr w key u)) k = sessions mgr k))"
proof (intro conjI impI)
  assume "execute_calls_stream tools pre st = (None, st1)
      \<and> execute tools (tc_name c) (tc_arguments c) (ts_world st1) = (Inl e, w')"
  then show "execute_calls_stream tools (pre @ c # post) st =
            (Some e,
             st1\<lparr> ts_world := w',
                   ts_executed := ts_executed st1 @ [(tc_name c, tc_arguments c)],
                   ts_events := ts_events st1
                     @ [ToolErrorEvent (tc_name c) (thrown_message e)] \<rparr>)"
    using execute_calls_stream_append [of tools pre st st1 "c # post"]
      execute_calls_stream_throws [of tools c st1 e w' post]
    by simp
next
  assume a: "ToolErrorEvent n m \<in> set (ts_events (tr_state (runOnceStream agent mgr w key u)))"
  obtain session mgr1 where
    g: "getOrCreate (al_builtins agent) mgr key (al_now agent w) = (session, mgr1)"
    by (cases "getOrCreate (al_builtins agent) mgr key (al_now agent w)")
  from runOnceStream_tool_error [OF a g] obtain e' where
    o: "tr_outcome (runOnceStream agent mgr w key u) = Inl e'"
    and m: "thrown_message e' = m"
    and ended: "ended_by_tool_error (tr_state (runOnceStream agent mgr w key u)) e'"
    and mg: "tr_manager (runOnceStream agent mgr w key u) = mgr1"
    by blast
  note last = tool_error_is_last [OF ended a]
  show "\<exists>e'. tr_outcome (runOnceStream agent mgr w key u) = Inl e' \<and> thrown_message e' = m"
    using o m by blast
  show "last (ts_events (tr_state (runOnceStream agent mgr w key u))) = ToolErrorEvent n m"
    using last by simp
  show "\<exists>args. last (ts_executed (tr_state (runOnceStream agent mgr w key u))) = (n, args)"
    using last by simp
  show "tr_manager (runOnceStream agent mgr w key u)
          = snd (getOrCreate (al_builtins agent) mgr key (al_now agent w))"
    using mg g by simp
  show "files (tr_manager (runOnceStream agent mgr w key u)) = files mgr"
    using mg getOrCreate_files [OF g] by simp
  show "sessions (tr_manager (runOnceStream agent mgr w key u)) key
          = Some (fst (getOrCreate (al_builtins agent) mgr key (al_now agent w)))"
    using mg g getOrCreate_session [OF g] by simp
  show "\<forall>k. k \<noteq> key
          \<longrightarrow> sessions (tr_manager (runOnceStream agent mgr w key u)) k = sessions mgr k"
    using mg getOrCreate_other [OF g] by simp
qed

lemma example_batch_prefix:
  "execute_calls_stream echo_registry [call_of ''echo''] example_start
   = (None,
      example_start\<lparr> ts_executed := [(''echo'', JObject [])],
                     ts_events := [ToolResultEvent ''echo'' ''ok''],
                     ts_messages := ts_messages example_start
                       @ [tool_result_msg (call_of ''echo'') ''ok''] \<rparr>)"
  by (simp add: example_start_def initial_turn_state_def echo_registry_def register_def
      echo_tool_def call_of_def execute_def Map_get_def)

lemma example_nope_throws:
  "execute echo_registry (tc_name (call_of ''nope'')) (tc_arguments (call_of ''nope'')) ()
   = (Inl (ThrownError ''Tool not found: nope''), ())"
  by (simp add: echo_registry_def register_def echo_tool_def call_of_def execute_def
      Map_get_def)

lemma example_stream_run:
  "runOnceStream failing_stream_agent empty_manager () ''s1'' ''hi''
   = \<lparr> tr_outcome = Inl (ThrownError ''Tool not found: nope''),
       tr_manager = empty_manager\<lparr> sessions := [''s1'' \<mapsto> new_Session ''s1'' None (clock ())] \<rparr>,
       tr_state =
         example_start
           \<lparr> ts_messages := ts_messages example_start
               @ [[(''role'', JString ''assistant''), (''content'', JNull),
                   (''tool_calls'',
                      JArray [JObject [(''id'', JString ''call_1''),
                                       (''type'', JString ''function''),
                                       (''function'',
                                          JObject [(''name'', JString ''nope''),
                                                   (''arguments'', JString ''{}'')])]])]],
             ts_provider_calls := 1,
             ts_executed := [(''nope'', JObject [])],
             ts_events := [StatusEvent ''thinking'', ToolCallEvent ''nope'' (JObject []),
                           ToolErrorEvent ''nope'' ''Tool not found: nope''] \<rparr> \<rparr>"
  by (simp add: runOnceStream_def runOnceStream_loop.simps runOnceStream_body_def
      failing_stream_agent_def new_AgentLoop_def always_streams_call_def call_of_def
      echo_registry_def register_def echo_tool_def js_def JSON_stringify_tbl_def clock_def
      empty_manager_def getOrCreate_def load_def getSessionPath_def new_Session_def example_start_def
      initial_turn_state_def initial_messages_def getHistory_def getDefinitions_def
      Map_values_def toSchema_def present_calls_def consume_chunk_def tool_call_events_def
      assistant_call_message_def wire_tool_call_def nonempty_or_null_def execute_def
      Map_get_def Let_def)

theorem runOnceStream_tool_failure_aborts_turn_witness:
  "execute_calls_stream echo_registry [call_of ''echo''] example_start
     = (None,
        example_start\<lparr> ts_executed := [(''echo'', JObject [])],
                       ts_events := [ToolResultEvent ''echo'' ''ok''],
                       ts_messages := ts_messages example_start
                         @ [tool_result_msg (call_of ''echo'') ''ok''] \<rparr>)
   \<and> execute echo_registry (tc_name (call_of ''nope'')) (tc_arguments (call_of ''nope'')) ()
     = (Inl (ThrownError ''Tool not found: nope''), ())
   \<and> execute_calls_stream echo_registry
       ([call_of ''echo''] @ call_of ''nope'' # [call_of ''echo'']) example_start
     = (Some (ThrownError ''Tool not found: nope''),
        example_start\<lparr> ts_executed := [(''echo'', JObject []), (''nope'', JObject [])],
                       ts_events := [ToolResultEvent ''echo'' ''ok'',
                                     ToolErrorEvent ''nope'' ''Tool not found: nope''],
                       ts_messages := ts_messages example_start
                         @ [tool_result_msg (call_of ''echo'') ''ok''] \<rparr>)
   \<and> ToolErrorEvent ''nope'' ''Tool not found: nope''
       \<in> set (ts_events (tr_state (runOnceStream failing_stream_agent empty_manager () ''s1'' ''hi'')))
   \<and> tr_outcome (runOnceStream failing_stream_agent empty_manager () ''s1'' ''hi'')
     = Inl (ThrownError ''Tool not found: nope'')
   \<and> files (tr_manager (runOnceStream failing_stream_agent empty_manager () ''s1'' ''hi''))
     = files empty_manager
   \<and> sessions (tr_manager (runOnceStream failing_stream_agent empty_manager () ''s1'' ''hi'')) ''s1''
     = Some (new_Session ''s1'' None (clock ()))"
proof -
  note T = runOnceStream_tool_failure_aborts_turn
    [of echo_registry "[call_of ''echo'']" example_start
        "example_start\<lparr> ts_executed := [(''echo'', JObject [])],
                       ts_events := [ToolResultEvent ''echo'' ''ok''],
                       ts_messages := ts_messages example_start
                         @ [tool_result_msg (call_of ''echo'') ''ok''] \<rparr>"
        "call_of ''nope''" "ThrownError ''Tool not found: nope''" "()" "[call_of ''echo'']"
        "''nope''" "''Tool not found: nope''" failing_stream_agent empty_manager "()"
        "''s1''" "''hi''"]
  have w: "ts_world example_start = ()" by simp
  have batch: "execute_calls_stream echo_registry
       ([call_of ''echo''] @ call_of ''nope'' # [call_of ''echo'']) example_start
     = (Some (ThrownError ''Tool not found: nope''),
        example_start\<lparr> ts_executed := [(''echo'', JObject []), (''nope'', JObject [])],
                       ts_events := [ToolResultEvent ''echo'' ''ok'',
                                     ToolErrorEvent ''nope'' ''Tool not found: nope''],
                       ts_messages := ts_messages example_start
                         @ [tool_result_msg (call_of ''echo'') ''ok''] \<rparr>)"
    using T [THEN conjunct1] example_batch_prefix example_nope_throws
    by (simp add: call_of_def)
  have ev: "ToolErrorEvent ''nope'' ''Tool not found: nope''
       \<in> set (ts_events (tr_state (runOnceStream failing_stream_agent empty_manager () ''s1'' ''hi'')))"
    by (simp add: example_stream_run)
  have g: "getOrCreate (al_builtins failing_stream_agent) empty_manager ''s1''
             (al_now failing_stream_agent ())
           = (new_Session ''s1'' None (clock ()),
              empty_manager\<lparr> sessions := [''s1'' \<mapsto> new_Session ''s1'' None (clock ())] \<rparr>)"
    by (simp add: getOrCreate_def load_def getSessionPath_def empty_manager_def failing_stream_agent_def
        new_AgentLoop_def Let_def)
  from T [THEN conjunct2] ev
  have f: "files (tr_manager (runOnceStream failing_stream_agent empty_manager () ''s1'' ''hi''))
             = files empty_manager"
    and s: "sessions (tr_manager (runOnceStream failing_stream_agent empty_manager () ''s1'' ''hi''))
              ''s1''
            = Some (fst (getOrCreate (al_builtins failing_stream_agent) empty_manager ''s1''
                           (al_now failing_stream_agent ())))"
    and o: "\<exists>e'. tr_outcome (runOnceStream failing_stream_agent empty_manager () ''s1'' ''hi'')
                 = Inl e' \<and> thrown_message e' = ''Tool not found: nope''"
    by blast+
  have o': "tr_outcome (runOnceStream failing_stream_agent empty_manager () ''s1'' ''hi'')
     = Inl (ThrownError ''Tool not found: nope'')"
    by (simp add: example_stream_run)
  show ?thesis
    using example_batch_prefix example_nope_throws batch ev o' f s g by simp
qed

end
